theory Spec2Isabelle
  imports Main "HOL-Library.Sublist"
begin

section \<open>The bundler of \<^verbatim>\<open>src/bundler.js\<close>\<close>

subsection \<open>External collaborators\<close>

text \<open>
  The script calls Node's \<^verbatim>\<open>fs\<close> and \<^verbatim>\<open>path\<close> modules, the babylon parser,
  \<^verbatim>\<open>@babel/traverse\<close> and \<^verbatim>\<open>@babel/core\<close>. None of them is code of the repository, so
  they are the fields of a record that every function of the model takes as its first
  argument. A call that throws returns \<open>None\<close>. The file system is read only and is the
  same at every call of one build.
  \<^item> \<open>fs_readdirSync d\<close>: the names in directory \<open>d\<close>, in listing order;
  \<^item> \<open>fs_readFileSync p\<close>: the text of the file at \<open>p\<close> (\<^verbatim>\<open>"utf-8"\<close>);
  \<^item> \<open>path_dirname\<close>, \<open>path_join\<close>: \<^verbatim>\<open>path.dirname\<close>, \<^verbatim>\<open>path.join\<close> of two strings;
  \<^item> \<open>path_base p\<close>: \<^verbatim>\<open>path.parse(p).base\<close>;
  \<^item> \<open>babylon_parse\<close>: \<^verbatim>\<open>babylon.parse(text, {sourceType: "module"})\<close> of a string;
  \<^item> \<open>traverse\<close>: the \<^verbatim>\<open>source.value\<close> of every import declaration of a tree, in the
    order the visitor of \<open>createAsset\<close> meets them;
  \<^item> \<open>babel_transform\<close>: the \<^verbatim>\<open>code\<close> of \<^verbatim>\<open>babel.transformFromAstSync\<close>.
\<close>

record 'ast env =
  fs_readdirSync :: "string \<Rightarrow> string list option"
  fs_readFileSync :: "string \<Rightarrow> string option"
  path_dirname :: "string \<Rightarrow> string"
  path_base :: "string \<Rightarrow> string"
  path_join :: "string \<Rightarrow> string \<Rightarrow> string"
  babylon_parse :: "string \<Rightarrow> 'ast option"
  traverse :: "'ast \<Rightarrow> string list"
  babel_transform :: "'ast \<Rightarrow> string option"

subsection \<open>The Source Loader: \<^verbatim>\<open>readFileGuessExtension\<close>\<close>

text \<open>
  \<^verbatim>\<open>x.indexOf(name)\<close>: the first position at which \<open>name\<close> occurs in \<open>x\<close>, and \<open>-1\<close>
  when it occurs nowhere.
\<close>

fun indexOf :: "string \<Rightarrow> string \<Rightarrow> int" where
  "indexOf x name =
     (if prefix name x then 0
      else (case x of
              [] \<Rightarrow> - 1
            | _ # rest \<Rightarrow> (let r = indexOf rest name in if r < 0 then - 1 else r + 1)))"

text \<open>
  \<^verbatim>\<open>path.dirname(p) + "/" + found\<close>: \<^verbatim>\<open>files.find\<close> gives \<^verbatim>\<open>undefined\<close> when no name
  passes the test, and string concatenation turns it into the text \<^verbatim>\<open>undefined\<close>.
\<close>

definition found_text :: "string option \<Rightarrow> string" where
  "found_text found = (case found of None \<Rightarrow> ''undefined'' | Some f \<Rightarrow> f)"

text \<open>
  The whole body stands in one \<^verbatim>\<open>try\<close>: a listing or a read that throws gives \<^verbatim>\<open>null\<close>
  (\<open>None\<close>).
\<close>

definition readFileGuessExtension :: "'ast env \<Rightarrow> string \<Rightarrow> string option" where
  "readFileGuessExtension E pathWithNoExtension =
     (case fs_readdirSync E (path_dirname E pathWithNoExtension) of
        None \<Rightarrow> None
      | Some files \<Rightarrow>
          (let name = path_base E pathWithNoExtension;
               found = find (\<lambda>x. indexOf x name = 0) files
           in fs_readFileSync E (path_dirname E pathWithNoExtension @ ''/'' @ found_text found)))"

subsection \<open>The Asset Builder: \<^verbatim>\<open>createAsset\<close>\<close>

text \<open>
  The \<^verbatim>\<open>mapping\<close> of an asset is a plain JavaScript object used as a table from
  specifier to id. Its own keys are kept in the order \<^verbatim>\<open>JSON.stringify\<close> lists them.
  A freshly built asset has no \<^verbatim>\<open>mapping\<close> property (\<open>None\<close>). The property \<^verbatim>\<open>id\<close> of the
  source is the field \<open>asset_id\<close>.
\<close>

type_synonym jsobj = "(string \<times> nat) list"

record asset =
  asset_id :: nat
  filename :: string
  dependencies :: "string list"
  code :: string
  mapping :: "jsobj option"

text \<open>
  The exceptions that leave \<open>createAsset\<close>. The source has no check of its own: it hands
  the loader's result to the parser, whose constructor reads \<^verbatim>\<open>input[0]\<close> and so throws a
  \<^verbatim>\<open>TypeError\<close> on \<^verbatim>\<open>null\<close>. That exception is \<open>LoadError\<close> here; \<open>ParseError\<close> is the
  parser's exception on a text and \<open>TransformError\<close> the transform's.
\<close>

datatype error = LoadError | ParseError | TransformError

text \<open>
  The state is the global counter \<^verbatim>\<open>ID\<close>; every function that reads or writes it takes
  its value and returns the new one, also when it throws (\<^verbatim>\<open>ID++\<close> runs before the
  transform). JavaScript numbers count exactly up to \<open>2^53\<close>, far beyond the assets of any
  build, so the counter is a natural number.
\<close>

definition createAsset :: "'ast env \<Rightarrow> string \<Rightarrow> nat \<Rightarrow> (error + asset) \<times> nat" where
  "createAsset E fname ID =
     (case readFileGuessExtension E fname of
        None \<Rightarrow> (Inl LoadError, ID)
      | Some content \<Rightarrow>
          (case babylon_parse E content of
             None \<Rightarrow> (Inl ParseError, ID)
           | Some ast \<Rightarrow>
               (let deps = traverse E ast;
                    ident = ID;
                    ID' = ID + 1
                in case babel_transform E ast of
                     None \<Rightarrow> (Inl TransformError, ID')
                   | Some c \<Rightarrow>
                       (Inr \<lparr>asset_id = ident, filename = fname, dependencies = deps,
                             code = c, mapping = None\<rparr>, ID'))))"

subsection \<open>The Graph Builder: \<^verbatim>\<open>createGraph\<close>\<close>

text \<open>
  \<^verbatim>\<open>asset.mapping[relativePath] = child.id\<close> on a plain object. The key \<^verbatim>\<open>__proto__\<close> is
  the accessor of \<^verbatim>\<open>Object.prototype\<close>, whose setter ignores a number: the assignment
  adds no property. A key that is there keeps its place and takes the new value. A new
  key that is an array index (the decimal text of a number below \<open>2^32 - 1\<close>) goes among
  the index keys in numeric order, before all other keys; any other new key goes last.
\<close>

definition is_digit :: "char \<Rightarrow> bool" where
  "is_digit c = (c \<in> set ''0123456789'')"

definition digit_val :: "char \<Rightarrow> nat" where
  "digit_val c = of_char c - 48"

definition decimal_val :: "string \<Rightarrow> nat" where
  "decimal_val s = foldl (\<lambda>n c. 10 * n + digit_val c) 0 s"

definition is_array_index :: "string \<Rightarrow> bool" where
  "is_array_index k =
     (k \<noteq> [] \<and> list_all is_digit k \<and> (k = ''0'' \<or> hd k \<noteq> CHR ''0'')
      \<and> decimal_val k < 4294967295)"

fun insert_index :: "string \<Rightarrow> nat \<Rightarrow> jsobj \<Rightarrow> jsobj" where
  "insert_index k v [] = [(k, v)]"
| "insert_index k v ((k', v') # rest) =
     (if is_array_index k' \<and> decimal_val k' < decimal_val k
      then (k', v') # insert_index k v rest
      else (k, v) # (k', v') # rest)"

fun replace_value :: "string \<Rightarrow> nat \<Rightarrow> jsobj \<Rightarrow> jsobj" where
  "replace_value k v [] = []"
| "replace_value k v ((k', v') # rest) =
     (if k' = k then (k, v) # rest else (k', v') # replace_value k v rest)"

definition obj_set :: "jsobj \<Rightarrow> string \<Rightarrow> nat \<Rightarrow> jsobj" where
  "obj_set m k v =
     (if k = ''__proto__'' then m
      else if k \<in> fst ` set m then replace_value k v m
      else if is_array_index k then insert_index k v m
      else m @ [(k, v)])"

text \<open>
  \<^verbatim>\<open>mapping[relativePath]\<close> read as an id: the number stored under an own key. For a key
  the object does not own the read gives \<^verbatim>\<open>undefined\<close>, or what \<^verbatim>\<open>Object.prototype\<close> holds
  under that name; neither is a number, and both are \<open>None\<close> here.
\<close>

definition obj_get :: "jsobj \<Rightarrow> string \<Rightarrow> nat option" where
  "obj_get m k = map_of m k"

text \<open>
  The callback of \<^verbatim>\<open>asset.dependencies.forEach\<close>, run over the specifiers in order. \<open>m\<close> is
  the \<^verbatim>\<open>mapping\<close> of the asset being processed and \<open>queue\<close> the array the children are
  pushed on. An exception of \<open>createAsset\<close> ends the loop and the build.
\<close>

fun forEach_dependency ::
  "'ast env \<Rightarrow> string \<Rightarrow> string list \<Rightarrow> jsobj \<Rightarrow> asset list \<Rightarrow> nat
     \<Rightarrow> (error + jsobj \<times> asset list) \<times> nat" where
  "forEach_dependency E dir [] m queue ID = (Inr (m, queue), ID)"
| "forEach_dependency E dir (relativePath # rest) m queue ID =
     (let absolutePath = path_join E dir relativePath
      in case createAsset E absolutePath ID of
           (Inl e, ID') \<Rightarrow> (Inl e, ID')
         | (Inr child, ID') \<Rightarrow>
             forEach_dependency E dir rest
               (obj_set m relativePath (asset_id child)) (queue @ [child]) ID')"

text \<open>
  One round of \<^verbatim>\<open>for (const asset of queue)\<close>, for the asset at index \<open>i\<close>: the asset gets
  an empty \<^verbatim>\<open>mapping\<close>, the callback runs over its dependencies, and the asset, which is
  the object at \<open>queue[i]\<close>, holds the filled \<^verbatim>\<open>mapping\<close> afterwards.
\<close>

definition visit :: "'ast env \<Rightarrow> nat \<Rightarrow> asset list \<Rightarrow> nat \<Rightarrow> (error + asset list) \<times> nat" where
  "visit E i queue ID =
     (let a = queue ! i;
          dir = path_dirname E (filename a)
      in case forEach_dependency E dir (dependencies a) [] queue ID of
           (Inl e, ID') \<Rightarrow> (Inl e, ID')
         | (Inr (m, queue'), ID') \<Rightarrow> (Inr (queue'[i := a\<lparr>mapping := Some m\<rparr>]), ID'))"

text \<open>
  The array iterator keeps an index \<open>i\<close> and stops when \<open>i\<close> reaches the length the array
  has at that moment, so it also visits the children pushed while it runs. Nothing
  bounds the number of rounds (a file that imports itself is built again and again), so
  the loop is a partial function: \<open>None\<close> is a loop that never ends.
\<close>

partial_function (option) for_of_queue ::
  "'ast env \<Rightarrow> nat \<Rightarrow> asset list \<Rightarrow> nat \<Rightarrow> ((error + asset list) \<times> nat) option" where
  [code]: "for_of_queue E i queue ID =
     (if i < length queue then
        (case visit E i queue ID of
           (Inl e, ID') \<Rightarrow> Some (Inl e, ID')
         | (Inr queue', ID') \<Rightarrow> for_of_queue E (i + 1) queue' ID')
      else Some (Inr queue, ID))"

definition createGraph :: "'ast env \<Rightarrow> string \<Rightarrow> nat \<Rightarrow> ((error + asset list) \<times> nat) option" where
  "createGraph E entry ID =
     (case createAsset E entry ID of
        (Inl e, ID') \<Rightarrow> Some (Inl e, ID')
      | (Inr mainAsset, ID') \<Rightarrow> for_of_queue E 0 [mainAsset] ID')"

subsection \<open>The Bundle Emitter: \<^verbatim>\<open>bundle\<close>\<close>

text \<open>
  The function \<^verbatim>\<open>bundle\<close> of the source is \<open>bundle_js\<close> here (the name is a keyword of
  Isabelle). A number in a template literal is printed as its decimal digits.
\<close>

fun decimal :: "nat \<Rightarrow> string" where
  "decimal n =
     (if n < 10 then [char_of (48 + n)]
      else decimal (n div 10) @ [char_of (48 + n mod 10)])"

text \<open>
  \<^verbatim>\<open>JSON.stringify\<close> of a property name: the text between double quotes, with the double
  quote, the backslash and the control characters escaped.
\<close>

definition hex_digit :: "nat \<Rightarrow> char" where
  "hex_digit d = (if d < 10 then char_of (48 + d) else char_of (87 + d))"

definition quote_char :: "char \<Rightarrow> string" where
  "quote_char c =
     (let n = (of_char c :: nat) in
      if n = 34 then [CHR 0x5C, CHR 0x22]
      else if n = 92 then [CHR 0x5C, CHR 0x5C]
      else if n = 8 then [CHR 0x5C, CHR ''b'']
      else if n = 12 then [CHR 0x5C, CHR ''f'']
      else if n = 10 then [CHR 0x5C, CHR ''n'']
      else if n = 13 then [CHR 0x5C, CHR ''r'']
      else if n = 9 then [CHR 0x5C, CHR ''t'']
      else if n < 32 then [CHR 0x5C, CHR ''u'', CHR ''0'', CHR ''0'', hex_digit (n div 16), hex_digit (n mod 16)]
      else [c])"

definition quote_json :: "string \<Rightarrow> string" where
  "quote_json k = [CHR 0x22] @ concat (map quote_char k) @ [CHR 0x22]"

fun json_members :: "jsobj \<Rightarrow> string" where
  "json_members [] = []"
| "json_members [(k, v)] = quote_json k @ '':'' @ decimal v"
| "json_members ((k, v) # rest) = quote_json k @ '':'' @ decimal v @ '','' @ json_members rest"

text \<open>
  \<^verbatim>\<open>${JSON.stringify(module.mapping)}\<close>: of an asset with no \<^verbatim>\<open>mapping\<close> the call gives
  \<^verbatim>\<open>undefined\<close>, which the template literal prints as that word.
\<close>

definition JSON_stringify :: "jsobj option \<Rightarrow> string" where
  "JSON_stringify m =
     (case m of None \<Rightarrow> ''undefined'' | Some obj \<Rightarrow> ''{'' @ json_members obj @ ''}'')"

definition newline :: string where
  "newline = [CHR 0x0A]"

text \<open>The text one round of \<^verbatim>\<open>graph.forEach\<close> adds to \<^verbatim>\<open>modules\<close>.\<close>

definition module_text :: "asset \<Rightarrow> string" where
  "module_text module =
     decimal (asset_id module) @ '': ['' @ newline @
     ''        function(require, module, exports) {'' @ newline @
     ''          '' @ code module @ newline @
     ''        },'' @ newline @
     ''        '' @ JSON_stringify (mapping module) @ newline @
     ''    ],''"

definition runtime_head :: string where
  "runtime_head =
     newline @
     ''    (function(modules) {'' @ newline @
     ''      function require(id) {'' @ newline @
     ''        const [fn, mapping] = modules[id];'' @ newline @
     newline @
     ''        function localRequire(relativePath) {'' @ newline @
     ''          return require(mapping[relativePath]);'' @ newline @
     ''        }'' @ newline @
     newline @
     ''        const module = { exports: {} };'' @ newline @
     newline @
     ''        fn(localRequire, module, module.exports);'' @ newline @
     newline @
     ''        return module.exports;'' @ newline @
     ''      }'' @ newline @
     newline @
     ''      require(0);'' @ newline @
     ''    })({''"

definition runtime_tail :: string where
  "runtime_tail = ''})'' @ newline @ ''  ''"

definition bundle_js :: "asset list \<Rightarrow> string" where
  "bundle_js graph =
     (let modules = foldl (\<lambda>modules module. modules @ module_text module) [] graph
      in runtime_head @ modules @ runtime_tail)"

subsection \<open>The script\<close>

text \<open>
  The last lines of the file: build the graph, emit the bundle, print it. \<open>build\<close> is
  these lines for any entry and any value of the counter; an exception of \<open>createGraph\<close>
  ends the script before \<open>bundle_js\<close> and \<^verbatim>\<open>console.log\<close> run, so nothing is printed. The
  script itself starts at \<^verbatim>\<open>ID = 0\<close> with the entry \<^verbatim>\<open>./entry.js\<close>.
\<close>

definition build :: "'ast env \<Rightarrow> string \<Rightarrow> nat \<Rightarrow> ((error + string) \<times> nat) option" where
  "build E entry ID =
     (case createGraph E entry ID of
        None \<Rightarrow> None
      | Some (Inl e, ID') \<Rightarrow> Some (Inl e, ID')
      | Some (Inr graph, ID') \<Rightarrow> Some (Inr (bundle_js graph), ID'))"

definition script :: "'ast env \<Rightarrow> ((error + string) \<times> nat) option" where
  "script E = build E ''./entry.js'' 0"

subsection \<open>The loader runtime of the bundle\<close>

text \<open>
  The text that \<open>bundle_js\<close> emits is a program: a registry from id to a pair of a
  function and a mapping, and the functions \<^verbatim>\<open>require\<close> and \<^verbatim>\<open>localRequire\<close>. The values
  that matter to it are numbers, strings, \<^verbatim>\<open>undefined\<close> and references to objects.
\<close>

datatype val = Undefined | Num int | Str string | Ref nat

text \<open>
  The body of a module is any function of \<^verbatim>\<open>(require, module, exports)\<close>. The model keeps
  what such a body can do that the loader sees: end, throw, call its \<^verbatim>\<open>require\<close> and go on
  with the result, assign a property of \<^verbatim>\<open>exports\<close>, assign \<^verbatim>\<open>module.exports\<close>, read a
  property, print a line. A body does not catch what a call of \<^verbatim>\<open>require\<close> throws.
\<close>

datatype cmd =
    Return
  | Throw val
  | Require string "val \<Rightarrow> cmd"
  | SetExport string val cmd
  | SetModuleExports val cmd
  | GetProp val string "val \<Rightarrow> cmd"
  | Log string cmd

text \<open>
  \<open>TypeError\<close>: destructuring \<^verbatim>\<open>modules[id]\<close> when it is \<^verbatim>\<open>undefined\<close>, or reading a property
  of \<^verbatim>\<open>undefined\<close>. \<open>RangeError\<close>: the call stack is used up. \<open>Thrown\<close>: what a body throws.
\<close>

datatype rt_error = TypeError | RangeError | Thrown val

text \<open>
  The state of a run: the objects allocated so far (a reference is a position in the
  list), the lines printed, and, only to state the properties, the ids of the modules
  whose body was entered, in order.
\<close>

type_synonym object = "(string \<times> val) list"

record rt_state =
  heap :: "object list"
  console :: "string list"
  started :: "nat list"

definition prop_get :: "object \<Rightarrow> string \<Rightarrow> val" where
  "prop_get obj k = (case map_of obj k of None \<Rightarrow> Undefined | Some v \<Rightarrow> v)"

definition prop_set :: "object \<Rightarrow> string \<Rightarrow> val \<Rightarrow> object" where
  "prop_set obj k v = (k, v) # filter (\<lambda>p. fst p \<noteq> k) obj"

definition heap_set :: "nat \<Rightarrow> string \<Rightarrow> val \<Rightarrow> rt_state \<Rightarrow> rt_state" where
  "heap_set r k v s =
     (if r < length (heap s) then s\<lparr>heap := (heap s)[r := prop_set (heap s ! r) k v]\<rparr> else s)"

type_synonym 'a outcome = "(rt_error + 'a) \<times> rt_state"

text \<open>
  The body \<^verbatim>\<open>fn\<close> run with \<^verbatim>\<open>(localRequire, module, module.exports)\<close>. \<open>req\<close> is \<^verbatim>\<open>require\<close>,
  and \<^verbatim>\<open>localRequire(relativePath)\<close> is \<^verbatim>\<open>require(mapping[relativePath])\<close>. The mapping of
  the registry is \<open>None\<close> when the bundle printed \<^verbatim>\<open>undefined\<close> for it.
\<close>

primrec exec ::
  "(nat option \<Rightarrow> rt_state \<Rightarrow> val outcome) \<Rightarrow> jsobj option \<Rightarrow> nat \<Rightarrow> nat \<Rightarrow> cmd
     \<Rightarrow> rt_state \<Rightarrow> unit outcome" where
  "exec req mapping' module exports Return s = (Inr (), s)"
| "exec req mapping' module exports (Throw v) s = (Inl (Thrown v), s)"
| "exec req mapping' module exports (Require relativePath k) s =
     (case mapping' of
        None \<Rightarrow> (Inl TypeError, s)
      | Some m \<Rightarrow>
          (case req (obj_get m relativePath) s of
             (Inl e, s') \<Rightarrow> (Inl e, s')
           | (Inr v, s') \<Rightarrow> exec req mapping' module exports (k v) s'))"
| "exec req mapping' module exports (SetExport key v c) s =
     exec req mapping' module exports c (heap_set exports key v s)"
| "exec req mapping' module exports (SetModuleExports v c) s =
     exec req mapping' module exports c (heap_set module ''exports'' v s)"
| "exec req mapping' module exports (GetProp obj key k) s =
     (case obj of
        Ref r \<Rightarrow> exec req mapping' module exports
                   (k (if r < length (heap s) then prop_get (heap s ! r) key else Undefined)) s
      | Undefined \<Rightarrow> (Inl TypeError, s)
      | _ \<Rightarrow> exec req mapping' module exports (k Undefined) s)"
| "exec req mapping' module exports (Log line c) s =
     exec req mapping' module exports c (s\<lparr>console := console s @ [line]\<rparr>)"

text \<open>
  \<^verbatim>\<open>const module = { exports: {} }\<close>: two new objects, the empty \<^verbatim>\<open>exports\<close> first. The id
  of the module is added to the record of bodies entered.
\<close>

type_synonym registry = "nat \<Rightarrow> (cmd \<times> jsobj option) option"

definition fresh_module :: "nat \<Rightarrow> rt_state \<Rightarrow> rt_state" where
  "fresh_module n s =
     s\<lparr>heap := heap s @ [[], [(''exports'', Ref (length (heap s)))]], started := started s @ [n]\<rparr>"

text \<open>
  \<^verbatim>\<open>require(id)\<close>. The first argument is the room left on the call stack, in calls of
  \<^verbatim>\<open>require\<close>; with none left the engine throws. The id is a number, or \<open>None\<close> for any
  other value; \<^verbatim>\<open>modules\<close> has numbers as its only keys.
\<close>

primrec require :: "nat \<Rightarrow> registry \<Rightarrow> nat option \<Rightarrow> rt_state \<Rightarrow> val outcome" where
  "require 0 modules ident s = (Inl RangeError, s)"
| "require (Suc depth) modules ident s =
     (case ident of
        None \<Rightarrow> (Inl TypeError, s)
      | Some n \<Rightarrow>
          (case modules n of
             None \<Rightarrow> (Inl TypeError, s)
           | Some (fn, mapping') \<Rightarrow>
               (let exports = length (heap s);
                    module = exports + 1;
                    s1 = fresh_module n s
                in case exec (require depth modules) mapping' module exports fn s1 of
                     (Inl e, s2) \<Rightarrow> (Inl e, s2)
                   | (Inr u, s2) \<Rightarrow> (Inr (prop_get (heap s2 ! module) ''exports''), s2))))"

text \<open>
  The registry the bundle of a graph builds: the object literal has one entry for each
  asset, under its id (of two entries with one id the later one stays). \<open>sem\<close> gives the
  behaviour of a code text as a function body.
\<close>

definition modules_of :: "(string \<Rightarrow> cmd) \<Rightarrow> asset list \<Rightarrow> registry" where
  "modules_of sem graph n =
     (case find (\<lambda>a. asset_id a = n) (rev graph) of
        None \<Rightarrow> None
      | Some a \<Rightarrow> Some (sem (code a), mapping a))"

text \<open>Running the bundle: \<^verbatim>\<open>require(0)\<close> in a fresh state.\<close>

definition run_bundle :: "nat \<Rightarrow> (string \<Rightarrow> cmd) \<Rightarrow> asset list \<Rightarrow> val outcome" where
  "run_bundle depth sem graph =
     require depth (modules_of sem graph) (Some 0) \<lparr>heap = [], console = [], started = []\<rparr>"

subsection \<open>Notions the properties are stated with\<close>

text \<open>The position of the last occurrence of a specifier in a list of dependencies.\<close>

fun last_pos :: "string list \<Rightarrow> string \<Rightarrow> nat option" where
  "last_pos [] s = None"
| "last_pos (d # ds) s =
     (case last_pos ds s of
        Some j \<Rightarrow> Some (Suc j)
      | None \<Rightarrow> if d = s then Some 0 else None)"

text \<open>The paths the round for asset \<open>a\<close> hands to \<open>createAsset\<close>, in order.\<close>

definition targets :: "'ast env \<Rightarrow> asset \<Rightarrow> string list" where
  "targets E a = map (path_join E (path_dirname E (filename a))) (dependencies a)"

text \<open>
  The \<^verbatim>\<open>mapping\<close> a round leaves when its children take the ids \<open>n\<close>, \<open>n + 1\<close>, ... in the
  order of the specifiers.
\<close>

fun record_children :: "jsobj \<Rightarrow> string list \<Rightarrow> nat \<Rightarrow> jsobj" where
  "record_children m [] n = m"
| "record_children m (d # ds) n = record_children (obj_set m d n) ds (n + 1)"

text \<open>
  An asset is built from its file: it is what \<open>createAsset\<close> returns for its filename
  when the counter stands at its id (but for the \<^verbatim>\<open>mapping\<close> a later round adds).
\<close>

definition built :: "'ast env \<Rightarrow> asset \<Rightarrow> bool" where
  "built E a \<longleftrightarrow>
     createAsset E (filename a) (asset_id a) = (Inr (a\<lparr>mapping := None\<rparr>), asset_id a + 1)"

text \<open>
  The position in the queue of the first child of the asset at position \<open>k\<close>: the entry
  and the children of all assets before \<open>k\<close> come first.
\<close>

definition child_start :: "asset list \<Rightarrow> nat \<Rightarrow> nat" where
  "child_start queue k = 1 + sum_list (map (\<lambda>a. length (dependencies a)) (take k queue))"

text \<open>
  The state of the loop at the head of round \<open>i\<close>, in a build of \<open>entry\<close> that began with
  the counter at \<open>ID0\<close>: the ids count up from \<open>ID0\<close> along the queue, the files after the
  entry are the targets of the assets visited so far, in order, each visited asset maps
  its specifiers to the ids of its own children, and no other asset has a \<^verbatim>\<open>mapping\<close>.
\<close>

definition graph_inv ::
  "'ast env \<Rightarrow> nat \<Rightarrow> string \<Rightarrow> nat \<Rightarrow> asset list \<Rightarrow> nat \<Rightarrow> bool" where
  "graph_inv E ID0 entry i queue ID \<longleftrightarrow>
     i \<le> length queue \<and>
     ID = ID0 + length queue \<and>
     map asset_id queue = [ID0 ..< ID0 + length queue] \<and>
     map filename queue = entry # concat (map (targets E) (take i queue)) \<and>
     (\<forall>k < length queue.
        mapping (queue ! k) =
          (if k < i
           then Some (record_children [] (dependencies (queue ! k)) (ID0 + child_start queue k))
           else None)) \<and>
     (\<forall>a \<in> set queue. built E a)"

text \<open>
  The states the loop of \<open>createGraph E entry ID0\<close> passes through, each at the head of a
  round.
\<close>

inductive traversal :: "'ast env \<Rightarrow> string \<Rightarrow> nat \<Rightarrow> nat \<Rightarrow> asset list \<Rightarrow> nat \<Rightarrow> bool"
  for E :: "'ast env" and entry :: string and ID0 :: nat where
  start: "createAsset E entry ID0 = (Inr mainAsset, ID1) \<Longrightarrow> traversal E entry ID0 0 [mainAsset] ID1"
| round: "traversal E entry ID0 i queue ID \<Longrightarrow> i < length queue \<Longrightarrow>
          visit E i queue ID = (Inr queue', ID') \<Longrightarrow> traversal E entry ID0 (i + 1) queue' ID'"

code_pred traversal .




subsection \<open>Example projects\<close>

text \<open>
  A project whose files all lie in the working directory: \<open>listing\<close> is what the
  directory lists, \<open>texts\<close> the text of each file that can be read, \<open>trees\<close> what the
  parser makes of a text (its import specifiers and the code the transform turns it
  into). On such paths Node gives \<^verbatim>\<open>path.dirname(p) = "."\<close>, and \<^verbatim>\<open>path.join(".", r)\<close> and
  \<^verbatim>\<open>path.parse(p).base\<close> drop a leading \<^verbatim>\<open>./\<close>.
\<close>

definition strip_dot_slash :: "string \<Rightarrow> string" where
  "strip_dot_slash p = (if take 2 p = ''./'' then drop 2 p else p)"

definition project_env ::
  "string list \<Rightarrow> (string \<times> string) list \<Rightarrow> (string \<times> string list \<times> string) list
     \<Rightarrow> (string list \<times> string) env" where
  "project_env listing texts trees =
     \<lparr>fs_readdirSync = (\<lambda>d. if d = ''.'' then Some listing else None),
      fs_readFileSync = (\<lambda>p. if take 2 p = ''./'' then map_of texts (drop 2 p) else None),
      path_dirname = (\<lambda>p. ''.''),
      path_base = strip_dot_slash,
      path_join = (\<lambda>d r. strip_dot_slash r),
      babylon_parse = map_of trees,
      traverse = fst,
      babel_transform = (\<lambda>t. Some (snd t))\<rparr>"

text \<open>A directory \<^verbatim>\<open>a\<close> listed before the file \<^verbatim>\<open>a.js\<close>: reading \<^verbatim>\<open>./a\<close> throws.\<close>

definition dir_first_env :: "(string list \<times> string) env" where
  "dir_first_env =
     project_env [''a'', ''a.js''] [(''a.js'', ''export default 1;'')]
       [(''export default 1;'', [], ''exports.default = 1;'')]"

text \<open>A project of one file that imports nothing.\<close>

definition solo_env :: "(string list \<times> string) env" where
  "solo_env =
     project_env [''entry.js''] [(''entry.js'', ''export default 1;'')]
       [(''export default 1;'', [], ''exports.default = 1;'')]"

text \<open>The entry imports \<^verbatim>\<open>./missing\<close>, and no file of the directory begins with that name.\<close>

definition missing_env :: "(string list \<times> string) env" where
  "missing_env =
     project_env [''entry.js''] [(''entry.js'', ''import \"./missing\";'')]
       [(''import \"./missing\";'', [''./missing''], ''require(\"./missing\");'')]"

text \<open>The entry imports \<^verbatim>\<open>./a\<close>, which imports \<^verbatim>\<open>./b\<close>, which imports nothing.\<close>

definition chain_env :: "(string list \<times> string) env" where
  "chain_env =
     project_env [''a.js'', ''b.js'', ''entry.js'']
       [(''entry.js'', ''import \"./a\";''), (''a.js'', ''import \"./b\";''),
        (''b.js'', ''export default 1;'')]
       [(''import \"./a\";'', [''./a''], ''require(\"./a\");''),
        (''import \"./b\";'', [''./b''], ''require(\"./b\");''),
        (''export default 1;'', [], ''exports.default = 1;'')]"

text \<open>
  The entry imports \<^verbatim>\<open>./a\<close> and \<^verbatim>\<open>a\<close>: two specifiers that \<^verbatim>\<open>path.join\<close> resolves to the same
  path.
\<close>

definition twin_env :: "(string list \<times> string) env" where
  "twin_env =
     project_env [''a.js'', ''entry.js'']
       [(''entry.js'', ''import \"./a\"; import \"a\";''), (''a.js'', ''export default 1;'')]
       [(''import \"./a\"; import \"a\";'', [''./a'', ''a''], ''require(\"./a\"); require(\"a\");''),
        (''export default 1;'', [], ''exports.default = 1;'')]"

text \<open>
  The entry imports the specifier \<^verbatim>\<open>__proto__\<close>, and the directory holds a file
  \<^verbatim>\<open>__proto__.js\<close>.
\<close>

definition proto_env :: "(string list \<times> string) env" where
  "proto_env =
     project_env [''__proto__.js'', ''entry.js'']
       [(''entry.js'', ''import \"__proto__\";''), (''__proto__.js'', ''export default 1;'')]
       [(''import \"__proto__\";'', [''__proto__''], ''require(\"__proto__\");''),
        (''export default 1;'', [], ''exports.default = 1;'')]"

text \<open>The entry imports \<^verbatim>\<open>./a\<close> twice.\<close>

definition twice_env :: "(string list \<times> string) env" where
  "twice_env =
     project_env [''a.js'', ''entry.js'']
       [(''entry.js'', ''import \"./a\"; import \"./a\";''), (''a.js'', ''export default 1;'')]
       [(''import \"./a\"; import \"./a\";'', [''./a'', ''./a''], ''require(\"./a\"); require(\"./a\");''),
        (''export default 1;'', [], ''exports.default = 1;'')]"

text \<open>The entry imports \<^verbatim>\<open>__proto__\<close> twice.\<close>

definition proto_twice_env :: "(string list \<times> string) env" where
  "proto_twice_env =
     project_env [''__proto__.js'', ''entry.js'']
       [(''entry.js'', ''import \"__proto__\"; import \"__proto__\";''),
        (''__proto__.js'', ''export default 1;'')]
       [(''import \"__proto__\"; import \"__proto__\";'', [''__proto__'', ''__proto__''],
         ''require(\"__proto__\"); require(\"__proto__\");''),
        (''export default 1;'', [], ''exports.default = 1;'')]"

text \<open>The graph \<open>createGraph\<close> returns for \<open>twice_env\<close>.\<close>

definition twice_graph :: "asset list" where
  "twice_graph =
     [\<lparr>asset_id = 0, filename = ''./entry.js'', dependencies = [''./a'', ''./a''],
       code = ''require(\"./a\"); require(\"./a\");'', mapping = Some [(''./a'', 2)]\<rparr>,
      \<lparr>asset_id = 1, filename = ''a'', dependencies = [],
       code = ''exports.default = 1;'', mapping = Some []\<rparr>,
      \<lparr>asset_id = 2, filename = ''a'', dependencies = [],
       code = ''exports.default = 1;'', mapping = Some []\<rparr>]"


text \<open>
  A file that calls \<^verbatim>\<open>require("./ghost")\<close> and has no import declaration, and the body of
  its code.
\<close>

definition ghost_env :: "(string list \<times> string) env" where
  "ghost_env =
     project_env [''entry.js''] [(''entry.js'', ''require(\"./ghost\");'')]
       [(''require(\"./ghost\");'', [], ''require(\"./ghost\");'')]"

definition ghost_sem :: "string \<Rightarrow> cmd" where
  "ghost_sem c =
     (if c = ''require(\"./ghost\");'' then Require ''./ghost'' (\<lambda>x. Return) else Return)"

text \<open>
  The entry imports itself, as \<^verbatim>\<open>./entry.js\<close> and as \<^verbatim>\<open>entry.js\<close>: two specifiers for one
  file, in a build that never ends. \<open>self_deps\<close> holds of a queue whose assets all have
  these two dependencies.
\<close>

definition self_env :: "(string list \<times> string) env" where
  "self_env =
     project_env [''entry.js'']
       [(''entry.js'', ''import \"./entry.js\"; import \"entry.js\";'')]
       [(''import \"./entry.js\"; import \"entry.js\";'', [''./entry.js'', ''entry.js''],
         ''require(\"./entry.js\"); require(\"entry.js\");'')]"

definition self_deps :: "asset list \<Rightarrow> bool" where
  "self_deps q \<longleftrightarrow> list_all (\<lambda>a. dependencies a = [''./entry.js'', ''entry.js'']) q"



text \<open>
  The entry imports \<^verbatim>\<open>./missing\<close>; no name of the directory begins with \<^verbatim>\<open>missing\<close>, and the
  directory holds a file named \<^verbatim>\<open>undefined\<close>.
\<close>

definition undef_env :: "(string list \<times> string) env" where
  "undef_env =
     project_env [''entry.js'', ''undefined'']
       [(''entry.js'', ''import \"./missing\";''), (''undefined'', ''export default 1;'')]
       [(''import \"./missing\";'', [''./missing''], ''require(\"./missing\");''),
        (''export default 1;'', [], ''exports.default = 1;'')]"

section \<open>Properties\<close>

subsection \<open>The Source Loader\<close>

declare indexOf.simps [simp del]

lemma indexOf_lower: "- 1 \<le> indexOf x name"
proof (induction x)
  case Nil
  show ?case by (simp add: indexOf.simps [of "[]" name])
next
  case (Cons c rest)
  then show ?case by (simp add: indexOf.simps [of "c # rest" name] Let_def)
qed

text \<open>The test \<^verbatim>\<open>x.indexOf(name) === 0\<close> holds exactly when \<open>x\<close> begins with \<open>name\<close>.\<close>

lemma indexOf_zero_iff: "indexOf x name = 0 \<longleftrightarrow> prefix name x"
proof (cases "prefix name x")
  case True
  then show ?thesis by (simp add: indexOf.simps [of x name])
next
  case False
  have "indexOf x name \<noteq> 0"
  proof (cases x)
    case Nil
    with False show ?thesis by (simp add: indexOf.simps [of "[]" name])
  next
    case (Cons c rest)
    have "- 1 \<le> indexOf rest name" by (rule indexOf_lower)
    with False Cons show ?thesis by (simp add: indexOf.simps [of "c # rest" name] Let_def)
  qed
  with False show ?thesis by simp
qed

text \<open>
  C9, as the code has it. When the directory cannot be listed the loader gives \<^verbatim>\<open>null\<close>.
  When it can, and some name of the listing begins with the base name, the loader gives
  what reading the first such name gives: the text of that entry, or \<^verbatim>\<open>null\<close> when that
  one read throws, whatever else the directory holds.
\<close>

theorem readFileGuessExtension_first_match:
  "(fs_readdirSync E (path_dirname E p) = None \<longrightarrow> readFileGuessExtension E p = None) \<and>
   (\<forall>files f.
      fs_readdirSync E (path_dirname E p) = Some files \<and>
      find (prefix (path_base E p)) files = Some f
      \<longrightarrow> readFileGuessExtension E p = fs_readFileSync E (path_dirname E p @ ''/'' @ f))"
  by (simp add: readFileGuessExtension_def indexOf_zero_iff found_text_def)

theorem readFileGuessExtension_first_match_witness:
  "fs_readdirSync dir_first_env (path_dirname dir_first_env ''./a.'') = Some [''a'', ''a.js'']
   \<and> find (prefix (path_base dir_first_env ''./a.'')) [''a'', ''a.js''] = Some ''a.js''
   \<and> readFileGuessExtension dir_first_env ''./a.'' = Some ''export default 1;''
   \<and> fs_readdirSync (dir_first_env\<lparr>fs_readdirSync := \<lambda>d. None\<rparr>)
         (path_dirname (dir_first_env\<lparr>fs_readdirSync := \<lambda>d. None\<rparr>) ''./a.'') = None
   \<and> readFileGuessExtension (dir_first_env\<lparr>fs_readdirSync := \<lambda>d. None\<rparr>) ''./a.'' = None"
proof -
  have d: "fs_readdirSync dir_first_env (path_dirname dir_first_env ''./a.'')
             = Some [''a'', ''a.js'']"
    by (simp add: dir_first_env_def project_env_def)
  have f: "find (prefix (path_base dir_first_env ''./a.'')) [''a'', ''a.js''] = Some ''a.js''"
    by (simp add: dir_first_env_def project_env_def strip_dot_slash_def)
  have "readFileGuessExtension dir_first_env ''./a.'' =
          fs_readFileSync dir_first_env (path_dirname dir_first_env ''./a.'' @ ''/'' @ ''a.js'')"
    using readFileGuessExtension_first_match [of dir_first_env "''./a.''"] d f by blast
  then have r: "readFileGuessExtension dir_first_env ''./a.'' = Some ''export default 1;''"
    by (simp add: dir_first_env_def project_env_def)
  let ?E = "dir_first_env\<lparr>fs_readdirSync := \<lambda>d. None\<rparr>"
  have n: "fs_readdirSync ?E (path_dirname ?E ''./a.'') = None" by simp
  with readFileGuessExtension_first_match [of ?E "''./a.''"]
  have "readFileGuessExtension ?E ''./a.'' = None" by blast
  with d f r n show ?thesis by (intro conjI)
qed

text \<open>
  The claim as written fails: the directory is listed, the file \<^verbatim>\<open>a.js\<close> begins with the
  base name \<^verbatim>\<open>a\<close> and can be read, and the loader still gives \<^verbatim>\<open>null\<close>, because the first
  name that matches is the directory \<^verbatim>\<open>a\<close>.
\<close>

theorem readFileGuessExtension_null_counterexample:
  "fs_readdirSync dir_first_env (path_dirname dir_first_env ''./a'') = Some [''a'', ''a.js'']
   \<and> prefix (path_base dir_first_env ''./a'') ''a.js''
   \<and> fs_readFileSync dir_first_env ''./a.js'' = Some ''export default 1;''
   \<and> readFileGuessExtension dir_first_env ''./a'' = None"
  by (simp add: dir_first_env_def project_env_def strip_dot_slash_def
      readFileGuessExtension_def found_text_def indexOf_zero_iff)

subsection \<open>The Asset Builder\<close>

lemma createAsset_Inr:
  assumes "createAsset E f ID = (Inr a, ID')"
  shows "ID' = ID + 1" and "asset_id a = ID" and "filename a = f" and "mapping a = None"
    and "built E a"
  using assms
  by (auto simp: createAsset_def built_def Let_def split: option.splits)

lemma createAsset_LoadError:
  "readFileGuessExtension E f = None \<Longrightarrow> createAsset E f ID = (Inl LoadError, ID)"
  by (simp add: createAsset_def)

lemma createAsset_loaded:
  "createAsset E f ID = (Inr a, ID') \<Longrightarrow> readFileGuessExtension E f \<noteq> None"
  by (auto simp: createAsset_def split: option.splits)

lemma forEach_dependency_Inr:
  "forEach_dependency E dir deps m q ID = (Inr (m', q'), ID') \<Longrightarrow>
     \<exists>children. q' = q @ children \<and> ID' = ID + length deps \<and>
        map asset_id children = [ID ..< ID + length deps] \<and>
        map filename children = map (path_join E dir) deps \<and>
        (\<forall>c \<in> set children. mapping c = None \<and> built E c) \<and>
        m' = record_children m deps ID"
proof (induction deps arbitrary: m q ID)
  case Nil
  then show ?case by simp
next
  case (Cons d ds)
  from Cons.prems obtain child ID1 where
    c: "createAsset E (path_join E dir d) ID = (Inr child, ID1)" and
    r: "forEach_dependency E dir ds (obj_set m d (asset_id child)) (q @ [child]) ID1
          = (Inr (m', q'), ID')"
    by (auto simp: Let_def split: prod.splits sum.splits)
  note f = createAsset_Inr [OF c]
  from Cons.IH [OF r] obtain children where
    ch: "q' = (q @ [child]) @ children" "ID' = ID1 + length ds"
      "map asset_id children = [ID1 ..< ID1 + length ds]"
      "map filename children = map (path_join E dir) ds"
      "\<forall>c \<in> set children. mapping c = None \<and> built E c"
      "m' = record_children (obj_set m d (asset_id child)) ds ID1"
    by blast
  have "[ID ..< ID + length (d # ds)] = ID # [ID1 ..< ID1 + length ds]"
    using f(1) by (simp add: upt_conv_Cons del: upt_Suc)
  then have "map asset_id (child # children) = [ID ..< ID + length (d # ds)]"
    using ch(3) f(2) by simp
  with ch f show ?case
    by (intro exI [of _ "child # children"]) simp
qed

lemma map_update_same:
  "i < length xs \<Longrightarrow> f x = f (xs ! i) \<Longrightarrow> map f (xs[i := x]) = map f xs"
  by (simp add: map_update list_update_same_conv)

lemma visit_Inr:
  assumes "visit E i q ID = (Inr q', ID')" and "i < length q"
  shows "\<exists>children.
           q' = (q @ children)[i := (q ! i)\<lparr>mapping := Some (record_children [] (dependencies (q ! i)) ID)\<rparr>] \<and>
           ID' = ID + length (dependencies (q ! i)) \<and>
           map asset_id children = [ID ..< ID'] \<and>
           map filename children = targets E (q ! i) \<and>
           (\<forall>c \<in> set children. mapping c = None \<and> built E c)"
proof -
  from assms(1) obtain m q1 where
    fe: "forEach_dependency E (path_dirname E (filename (q ! i))) (dependencies (q ! i)) [] q ID
           = (Inr (m, q1), ID')"
    and q': "q' = q1[i := (q ! i)\<lparr>mapping := Some m\<rparr>]"
    by (auto simp: visit_def Let_def split: prod.splits sum.splits)
  from forEach_dependency_Inr [OF fe] q' show ?thesis
    by (auto simp: targets_def)
qed

subsection \<open>The loop of the Graph Builder\<close>

lemma child_start_queue_length:
  assumes "map filename q = entry # concat (map (targets E) (take i q))"
  shows "child_start q i = length q"
proof -
  have "length q = length (map filename q)" by simp
  also have "\<dots> = 1 + length (concat (map (targets E) (take i q)))"
    by (simp only: assms) simp
  also have "\<dots> = child_start q i"
    by (simp add: child_start_def length_concat targets_def comp_def)
  finally show ?thesis by simp
qed

lemma child_start_cong:
  "map dependencies (take k q) = map dependencies (take k q') \<Longrightarrow> child_start q k = child_start q' k"
proof -
  assume a: "map dependencies (take k q) = map dependencies (take k q')"
  have "\<And>xs. map (\<lambda>a. length (dependencies a)) xs = map length (map dependencies xs)"
    by simp
  then show ?thesis unfolding child_start_def using a by metis
qed

lemma built_mapping_update: "built E a \<Longrightarrow> built E (a\<lparr>mapping := m\<rparr>)"
  by (simp add: built_def)

lemma visit_preserves:
  assumes inv: "graph_inv E ID0 entry i q ID" and i: "i < length q"
    and v: "visit E i q ID = (Inr q', ID')"
  shows "graph_inv E ID0 entry (i + 1) q' ID'"
proof -
  let ?m = "record_children [] (dependencies (q ! i)) ID"
  let ?a' = "(q ! i)\<lparr>mapping := Some ?m\<rparr>"
  from visit_Inr [OF v i] obtain children where
    q': "q' = (q @ children)[i := ?a']" and
    ID': "ID' = ID + length (dependencies (q ! i))" and
    cid: "map asset_id children = [ID ..< ID']" and
    cfn: "map filename children = targets E (q ! i)" and
    cnew: "\<forall>c \<in> set children. mapping c = None \<and> built E c"
    by blast
  from inv have I: "ID = ID0 + length q"
    "map asset_id q = [ID0 ..< ID0 + length q]"
    "map filename q = entry # concat (map (targets E) (take i q))"
    "\<forall>k < length q. mapping (q ! k) =
        (if k < i then Some (record_children [] (dependencies (q ! k)) (ID0 + child_start q k))
         else None)"
    "\<forall>a \<in> set q. built E a"
    by (simp_all add: graph_inv_def)
  have lenc: "length children = length (dependencies (q ! i))"
  proof -
    have "length children = length (map filename children)" by simp
    also have "\<dots> = length (dependencies (q ! i))" by (simp only: cfn) (simp add: targets_def)
    finally show ?thesis .
  qed
  have len: "length q' = length q + length children" by (simp add: q')
  have i': "i < length (q @ children)" using i by simp
  have at_i: "(q @ children) ! i = q ! i" using i by (simp add: nth_append)
  have P_id: "map asset_id q' = map asset_id q @ map asset_id children"
    unfolding q' using map_update_same [OF i', of asset_id ?a'] at_i by simp
  have P_fn: "map filename q' = map filename q @ map filename children"
    unfolding q' using map_update_same [OF i', of filename ?a'] at_i by simp
  have P_dep: "map dependencies q' = map dependencies q @ map dependencies children"
    unfolding q' using map_update_same [OF i', of dependencies ?a'] at_i by simp
  have P_tg: "map (targets E) q' = map (targets E) q @ map (targets E) children"
    unfolding q' using map_update_same [OF i', of "targets E" ?a'] at_i by (simp add: targets_def)
  have G1: "i + 1 \<le> length q'" using i len by simp
  have G2: "ID' = ID0 + length q'" using I(1) ID' len lenc by simp
  have G3: "map asset_id q' = [ID0 ..< ID0 + length q']"
  proof -
    have "[ID0 ..< ID0 + length q'] = [ID0 ..< ID0 + length q] @ [ID ..< ID']"
      using I(1) G2 len upt_add_eq_append [of ID0 "ID0 + length q" "length children"]
      by (simp add: add.assoc)
    with P_id I(2) cid show ?thesis by simp
  qed
  have G4: "map filename q' = entry # concat (map (targets E) (take (i + 1) q'))"
  proof -
    have "map (targets E) (take (i + 1) q') = take (Suc i) (map (targets E) q')"
      by (simp add: take_map)
    also have "\<dots> = take (Suc i) (map (targets E) q)"
      using i by (simp add: P_tg)
    also have "\<dots> = take i (map (targets E) q) @ [targets E (q ! i)]"
      using i by (simp add: take_Suc_conv_app_nth)
    finally have "concat (map (targets E) (take (i + 1) q'))
        = concat (map (targets E) (take i q)) @ targets E (q ! i)"
      by (simp add: take_map)
    with P_fn I(3) cfn show ?thesis by simp
  qed
  have cs: "child_start q' k = child_start q k" if "k \<le> length q" for k
  proof (rule child_start_cong)
    have "map dependencies (take k q') = take k (map dependencies q')" by (simp add: take_map)
    also have "\<dots> = take k (map dependencies q)" using that by (simp add: P_dep)
    finally show "map dependencies (take k q') = map dependencies (take k q)"
      by (simp add: take_map)
  qed
  have G5: "mapping (q' ! k) =
        (if k < i + 1 then Some (record_children [] (dependencies (q' ! k)) (ID0 + child_start q' k))
         else None)" if k: "k < length q'" for k
  proof -
    consider "k < i" | "k = i" | "i < k" "k < length q" | "length q \<le> k" using i by linarith
    then show ?thesis
    proof cases
      case 1
      then have "q' ! k = q ! k" using i by (simp add: q' nth_append)
      with 1 I(4) i cs [of k] show ?thesis by simp
    next
      case 2
      have "q' ! i = ?a'" using i' by (simp add: q')
      moreover have "ID = ID0 + child_start q' i"
        using cs [of i] i child_start_queue_length [OF I(3)] I(1) by simp
      ultimately show ?thesis using 2 by simp
    next
      case 3
      then have "q' ! k = q ! k" by (simp add: q' nth_append)
      with 3 I(4) show ?thesis by simp
    next
      case 4
      with i have ki: "k \<noteq> i" by simp
      from 4 k len have "k - length q < length children" by simp
      then have "children ! (k - length q) \<in> set children" by simp
      moreover have "q' ! k = children ! (k - length q)"
        using 4 ki by (simp add: q' nth_append)
      ultimately show ?thesis using cnew 4 i by simp
    qed
  qed
  have G6: "built E a" if "a \<in> set q'" for a
  proof -
    from that have "a = ?a' \<or> a \<in> set q \<or> a \<in> set children"
      unfolding q' using set_update_subset_insert [of "q @ children" i ?a'] by auto
    moreover have "built E ?a'" using I(5) i by (simp add: built_mapping_update)
    ultimately show ?thesis using I(5) cnew by blast
  qed
  show ?thesis
    unfolding graph_inv_def using G1 G2 G3 G4 G5 G6 by blast
qed

lemma for_of_queue_inv_aux:
  assumes "for_of_queue E i q ID = Some r"
  shows "graph_inv E ID0 entry i q ID \<longrightarrow>
           (\<forall>g ID'. r = (Inr g, ID') \<longrightarrow> graph_inv E ID0 entry (length g) g ID')"
proof (rule for_of_queue.raw_induct
    [OF _ assms, where P = "\<lambda>E i q ID r. graph_inv E ID0 entry i q ID \<longrightarrow>
           (\<forall>g ID'. r = (Inr g, ID') \<longrightarrow> graph_inv E ID0 entry (length g) g ID')"])
  fix loop :: "'a env \<Rightarrow> nat \<Rightarrow> asset list \<Rightarrow> nat \<Rightarrow> ((error + asset list) \<times> nat) option"
  fix E i q ID r
  assume IH: "\<And>E i q ID y. loop E i q ID = Some y \<Longrightarrow>
      graph_inv E ID0 entry i q ID \<longrightarrow>
        (\<forall>g ID'. y = (Inr g, ID') \<longrightarrow> graph_inv E ID0 entry (length g) g ID')"
  assume body: "(if i < length q
      then case visit E i q ID of (Inl e, ID') \<Rightarrow> Some (Inl e, ID')
           | (Inr queue', ID') \<Rightarrow> loop E (i + 1) queue' ID'
      else Some (Inr q, ID)) = Some r"
  show "graph_inv E ID0 entry i q ID \<longrightarrow>
          (\<forall>g ID'. r = (Inr g, ID') \<longrightarrow> graph_inv E ID0 entry (length g) g ID')"
  proof (intro impI allI)
    fix g ID'
    assume inv: "graph_inv E ID0 entry i q ID" and r: "r = (Inr g, ID')"
    show "graph_inv E ID0 entry (length g) g ID'"
    proof (cases "i < length q")
      case True
      with body r obtain q1 ID1 where
        v: "visit E i q ID = (Inr q1, ID1)" and l: "loop E (i + 1) q1 ID1 = Some (Inr g, ID')"
        by (auto split: prod.splits sum.splits)
      from visit_preserves [OF inv True v] IH [OF l] show ?thesis by simp
    next
      case False
      with body r have "g = q" "ID' = ID" by simp_all
      moreover from False inv have "i = length q" by (simp add: graph_inv_def)
      ultimately show ?thesis using inv by simp
    qed
  qed
qed

lemma for_of_queue_inv:
  assumes "for_of_queue E i q ID = Some (Inr g, ID')" and "graph_inv E ID0 entry i q ID"
  shows "graph_inv E ID0 entry (length g) g ID'"
  using for_of_queue_inv_aux [OF assms(1)] assms(2) by simp

lemma createAsset_start:
  assumes "createAsset E entry ID0 = (Inr a, ID1)"
  shows "graph_inv E ID0 entry 0 [a] ID1"
  using createAsset_Inr [OF assms] by (simp add: graph_inv_def)

lemma createGraph_inv:
  assumes "createGraph E entry ID0 = Some (Inr g, ID')"
  shows "graph_inv E ID0 entry (length g) g ID'"
proof -
  from assms obtain a ID1 where c: "createAsset E entry ID0 = (Inr a, ID1)"
    and l: "for_of_queue E 0 [a] ID1 = Some (Inr g, ID')"
    by (auto simp: createGraph_def split: prod.splits sum.splits)
  from for_of_queue_inv [OF l createAsset_start [OF c]] show ?thesis .
qed

lemma traversal_result:
  "traversal E entry ID0 i q ID \<Longrightarrow> createGraph E entry ID0 = for_of_queue E i q ID"
proof (induction rule: traversal.induct)
  case (start mainAsset ID1)
  then show ?case by (simp add: createGraph_def)
next
  case (round i queue ID queue' ID')
  then show ?case by (simp add: for_of_queue.simps [of E i queue ID])
qed

lemma traversal_inv:
  "traversal E entry ID0 i q ID \<Longrightarrow> graph_inv E ID0 entry i q ID"
proof (induction rule: traversal.induct)
  case (start mainAsset ID1)
  then show ?case by (rule createAsset_start)
next
  case (round i queue ID queue' ID')
  then show ?case using visit_preserves by simp
qed

lemmas project_simps =
  project_env_def strip_dot_slash_def readFileGuessExtension_def found_text_def
  indexOf_zero_iff createAsset_def


subsection \<open>Ids\<close>

text \<open>
  C1, as the code has it. The counter \<^verbatim>\<open>ID\<close> is one variable of the module and is never
  set back. An invocation of \<open>createGraph\<close> that begins with the counter at \<open>ID0\<close> and
  returns a graph of \<open>N\<close> assets gives them the ids \<open>ID0, ..., ID0 + N - 1\<close> in the order of
  the graph (no gap, no repeat), the entry first with id \<open>ID0\<close>, and leaves the counter at
  \<open>ID0 + N\<close>. The first invocation of a process has \<open>ID0 = 0\<close>: ids \<open>0, ..., N - 1\<close>, the
  entry \<open>0\<close>.
\<close>

theorem createGraph_ids:
  assumes "createGraph E entry ID0 = Some (Inr g, ID')"
  shows "map asset_id g = [ID0 ..< ID0 + length g] \<and> g \<noteq> [] \<and> filename (hd g) = entry \<and>
         asset_id (hd g) = ID0 \<and> ID' = ID0 + length g"
proof -
  from createGraph_inv [OF assms] have
    ids: "map asset_id g = [ID0 ..< ID0 + length g]" and
    fn: "map filename g = entry # concat (map (targets E) (take (length g) g))" and
    ID': "ID' = ID0 + length g"
    by (simp_all add: graph_inv_def)
  from fn have ne: "g \<noteq> []" by auto
  then obtain a rest where g: "g = a # rest" by (cases g) auto
  from fn g have "filename (hd g) = entry" by simp
  moreover from ids g have "asset_id (hd g) = ID0" by (simp add: upt_conv_Cons del: upt_Suc)
  ultimately show ?thesis using ids ne ID' by simp
qed


theorem createGraph_ids_witness:
  "createGraph solo_env ''./entry.js'' 1 =
     Some (Inr [\<lparr>asset_id = 1, filename = ''./entry.js'', dependencies = [],
                 code = ''exports.default = 1;'', mapping = Some []\<rparr>], 2)
   \<and> map asset_id [\<lparr>asset_id = 1, filename = ''./entry.js'', dependencies = [],
                 code = ''exports.default = 1;'', mapping = Some []\<rparr>] = [1 ..< 1 + 1]"
proof -
  have c: "createGraph solo_env ''./entry.js'' 1 =
     Some (Inr [\<lparr>asset_id = 1, filename = ''./entry.js'', dependencies = [],
                 code = ''exports.default = 1;'', mapping = Some []\<rparr>], 2)"
    by code_simp
  from createGraph_ids [OF c] c show ?thesis by simp
qed


text \<open>
  The claim as written fails at a second invocation in the same process: the first
  build of the one-file project leaves the counter at 1, and the second build gives the
  entry the id 1.
\<close>

theorem createGraph_second_invocation_counterexample:
  "createGraph solo_env ''./entry.js'' 0 =
     Some (Inr [\<lparr>asset_id = 0, filename = ''./entry.js'', dependencies = [],
                 code = ''exports.default = 1;'', mapping = Some []\<rparr>], 1)
   \<and> createGraph solo_env ''./entry.js'' 1 =
     Some (Inr [\<lparr>asset_id = 1, filename = ''./entry.js'', dependencies = [],
                 code = ''exports.default = 1;'', mapping = Some []\<rparr>], 2)
   \<and> map asset_id [\<lparr>asset_id = 1, filename = ''./entry.js'', dependencies = [],
                 code = ''exports.default = 1;'', mapping = Some []\<rparr>] \<noteq> [0 ..< 1]"
  by code_simp


subsection \<open>Load failures\<close>

lemma forEach_dependency_append:
  "forEach_dependency E dir (pre @ rest) m q ID =
     (case forEach_dependency E dir pre m q ID of
        (Inl e, ID') \<Rightarrow> (Inl e, ID')
      | (Inr (m', q'), ID') \<Rightarrow> forEach_dependency E dir rest m' q' ID')"
  by (induction pre arbitrary: m q ID) (auto simp: Let_def split: prod.splits sum.splits)

lemma visit_LoadError:
  assumes "dependencies (q ! i) = pre @ d # post"
    and "forEach_dependency E (path_dirname E (filename (q ! i))) pre [] q ID = (Inr (m, q1), ID1)"
    and "readFileGuessExtension E (path_join E (path_dirname E (filename (q ! i))) d) = None"
  shows "visit E i q ID = (Inl LoadError, ID1)"
  using assms
  by (simp add: visit_def forEach_dependency_append createAsset_LoadError)

lemma build_Inl:
  "createGraph E entry ID0 = Some (Inl e, ID') \<Longrightarrow> build E entry ID0 = Some (Inl e, ID')"
  by (simp add: build_def)


text \<open>
  An unreadable directory gives \<open>LoadError\<close>; a directory with no matching name gives it
  when reading \<^verbatim>\<open>undefined\<close> in that directory fails.
\<close>

lemma find_no_match:
  "(\<forall>x \<in> set files. \<not> prefix name x) \<Longrightarrow> find (\<lambda>x. indexOf x name = 0) files = None"
  by (simp add: find_None_iff indexOf_zero_iff)

lemma createAsset_unavailable:
  assumes "fs_readdirSync E (path_dirname E f) = None \<or>
           (\<exists>files. fs_readdirSync E (path_dirname E f) = Some files \<and>
              (\<forall>x \<in> set files. \<not> prefix (path_base E f) x) \<and>
              fs_readFileSync E (path_dirname E f @ ''/undefined'') = None)"
  shows "readFileGuessExtension E f = None \<and> createAsset E f ID = (Inl LoadError, ID)"
proof -
  from assms have "readFileGuessExtension E f = None"
    by (auto simp add: readFileGuessExtension_def find_no_match found_text_def)
  then show ?thesis by (simp add: createAsset_LoadError)
qed

text \<open>
  When the loader gives \<^verbatim>\<open>null\<close> for a path, \<open>createAsset\<close> fails with \<open>LoadError\<close>. When that
  path is the entry, or the target of a dependency the loop comes to (in any round the
  traversal reaches, after the dependencies before it were built), \<open>createGraph\<close> ends with
  that error at once and the script prints no bundle.
\<close>

lemma load_failure_aborts:
  "(readFileGuessExtension E f = None \<longrightarrow> createAsset E f ID = (Inl LoadError, ID)) \<and>
   (readFileGuessExtension E entry = None \<longrightarrow>
      createGraph E entry ID0 = Some (Inl LoadError, ID0) \<and>
      build E entry ID0 = Some (Inl LoadError, ID0)) \<and>
   (\<forall>i q ID pre d post m q1 ID1.
      traversal E entry ID0 i q ID \<and> i < length q \<and>
      dependencies (q ! i) = pre @ d # post \<and>
      forEach_dependency E (path_dirname E (filename (q ! i))) pre [] q ID = (Inr (m, q1), ID1) \<and>
      readFileGuessExtension E (path_join E (path_dirname E (filename (q ! i))) d) = None
      \<longrightarrow> createGraph E entry ID0 = Some (Inl LoadError, ID1) \<and>
          build E entry ID0 = Some (Inl LoadError, ID1))"
proof (intro conjI impI allI)
  assume "readFileGuessExtension E f = None"
  then show "createAsset E f ID = (Inl LoadError, ID)" by (rule createAsset_LoadError)
next
  assume "readFileGuessExtension E entry = None"
  then show g: "createGraph E entry ID0 = Some (Inl LoadError, ID0)"
    by (simp add: createGraph_def createAsset_LoadError)
  then show "build E entry ID0 = Some (Inl LoadError, ID0)" by (rule build_Inl)
next
  fix i q ID pre d post m q1 ID1
  assume a: "traversal E entry ID0 i q ID \<and> i < length q \<and>
      dependencies (q ! i) = pre @ d # post \<and>
      forEach_dependency E (path_dirname E (filename (q ! i))) pre [] q ID = (Inr (m, q1), ID1) \<and>
      readFileGuessExtension E (path_join E (path_dirname E (filename (q ! i))) d) = None"
  then have v: "visit E i q ID = (Inl LoadError, ID1)" using visit_LoadError by blast
  from a have "createGraph E entry ID0 = for_of_queue E i q ID" by (simp add: traversal_result)
  with a v show g: "createGraph E entry ID0 = Some (Inl LoadError, ID1)"
    by (simp add: for_of_queue.simps [of E i q ID])
  then show "build E entry ID0 = Some (Inl LoadError, ID1)" by (rule build_Inl)
qed


lemma load_failure_aborts_example:
  "traversal missing_env ''./entry.js'' 0 0
      [\<lparr>asset_id = 0, filename = ''./entry.js'', dependencies = [''./missing''],
        code = ''require(\"./missing\");'', mapping = None\<rparr>] 1
   \<and> readFileGuessExtension missing_env
         (path_join missing_env (path_dirname missing_env ''./entry.js'') ''./missing'') = None
   \<and> createGraph missing_env ''./entry.js'' 0 = Some (Inl LoadError, 1)
   \<and> script missing_env = Some (Inl LoadError, 1)
   \<and> readFileGuessExtension missing_env ''./nothing'' = None
   \<and> createAsset missing_env ''./nothing'' 0 = (Inl LoadError, 0)
   \<and> build missing_env ''./nothing'' 0 = Some (Inl LoadError, 0)"
proof -
  let ?a = "\<lparr>asset_id = 0, filename = ''./entry.js'', dependencies = [''./missing''],
        code = ''require(\"./missing\");'', mapping = None\<rparr>"
  have "createAsset missing_env ''./entry.js'' 0 = (Inr ?a, 1)"
    by (simp add: missing_env_def project_simps)
  then have t: "traversal missing_env ''./entry.js'' 0 0 [?a] 1" by (rule traversal.start)
  have r: "readFileGuessExtension missing_env
         (path_join missing_env (path_dirname missing_env ''./entry.js'') ''./missing'') = None"
    by (simp add: missing_env_def project_simps)
  have "createGraph missing_env ''./entry.js'' 0 = Some (Inl LoadError, 1) \<and>
        build missing_env ''./entry.js'' 0 = Some (Inl LoadError, 1)"
    using load_failure_aborts [of missing_env _ _ "''./entry.js''" 0, THEN conjunct2, THEN conjunct2,
        rule_format, of 0 "[?a]" 1 "[]" "''./missing''" "[]" "[]" "[?a]" 1] t r
    by simp
  then have g: "createGraph missing_env ''./entry.js'' 0 = Some (Inl LoadError, 1)"
    and s: "script missing_env = Some (Inl LoadError, 1)"
    by (simp_all add: script_def)
  have n: "readFileGuessExtension missing_env ''./nothing'' = None"
    by (simp add: missing_env_def project_simps)
  note L = load_failure_aborts [of missing_env "''./nothing''" 0 "''./nothing''" 0]
  from L n have c: "createAsset missing_env ''./nothing'' 0 = (Inl LoadError, 0)" by blast
  from L n have b: "build missing_env ''./nothing'' 0 = Some (Inl LoadError, 0)" by blast
  from t r g s n c b show ?thesis by (intro conjI)
qed

text \<open>
  C2 fails on the code when no name of the directory matches and the directory holds a
  file named \<^verbatim>\<open>undefined\<close>. The loader is documented to give \<^verbatim>\<open>null\<close> when nothing is found;
  it reads \<^verbatim>\<open>./undefined\<close> instead and returns that text. \<open>createAsset\<close> builds an asset for
  \<^verbatim>\<open>missing\<close> from it, \<open>createGraph\<close> returns a graph of two assets and the script prints the
  bundle, where the claim has a \<open>LoadError\<close> and no bundle.
\<close>

theorem missing_file_reads_undefined:
  "fs_readdirSync undef_env (path_dirname undef_env ''missing'') = Some [''entry.js'', ''undefined'']
   \<and> find (\<lambda>x. indexOf x (path_base undef_env ''missing'') = 0) [''entry.js'', ''undefined''] = None
   \<and> readFileGuessExtension undef_env ''missing'' = Some ''export default 1;''
   \<and> createAsset undef_env ''missing'' 1 =
        (Inr \<lparr>asset_id = 1, filename = ''missing'', dependencies = [],
              code = ''exports.default = 1;'', mapping = None\<rparr>, 2)
   \<and> createGraph undef_env ''./entry.js'' 0 =
        Some (Inr [\<lparr>asset_id = 0, filename = ''./entry.js'', dependencies = [''./missing''],
                    code = ''require(\"./missing\");'', mapping = Some [(''./missing'', 1)]\<rparr>,
                   \<lparr>asset_id = 1, filename = ''missing'', dependencies = [],
                    code = ''exports.default = 1;'', mapping = Some []\<rparr>], 2)
   \<and> script undef_env =
        Some (Inr (bundle_js
                   [\<lparr>asset_id = 0, filename = ''./entry.js'', dependencies = [''./missing''],
                     code = ''require(\"./missing\");'', mapping = Some [(''./missing'', 1)]\<rparr>,
                    \<lparr>asset_id = 1, filename = ''missing'', dependencies = [],
                     code = ''exports.default = 1;'', mapping = Some []\<rparr>]), 2)"
proof -
  have d: "fs_readdirSync undef_env (path_dirname undef_env ''missing'')
             = Some [''entry.js'', ''undefined'']"
    by (simp add: undef_env_def project_env_def)
  have f: "find (\<lambda>x. indexOf x (path_base undef_env ''missing'') = 0) [''entry.js'', ''undefined'']
             = None"
    by (simp add: undef_env_def project_env_def strip_dot_slash_def indexOf_zero_iff)
  have r: "readFileGuessExtension undef_env ''missing'' = Some ''export default 1;''"
    by (simp add: undef_env_def project_simps)
  have c: "createAsset undef_env ''missing'' 1 =
        (Inr \<lparr>asset_id = 1, filename = ''missing'', dependencies = [],
              code = ''exports.default = 1;'', mapping = None\<rparr>, 2)"
    by (simp add: undef_env_def project_simps)
  have g: "createGraph undef_env ''./entry.js'' 0 =
        Some (Inr [\<lparr>asset_id = 0, filename = ''./entry.js'', dependencies = [''./missing''],
                    code = ''require(\"./missing\");'', mapping = Some [(''./missing'', 1)]\<rparr>,
                   \<lparr>asset_id = 1, filename = ''missing'', dependencies = [],
                    code = ''exports.default = 1;'', mapping = Some []\<rparr>], 2)"
    by code_simp
  then have s: "script undef_env =
        Some (Inr (bundle_js
                   [\<lparr>asset_id = 0, filename = ''./entry.js'', dependencies = [''./missing''],
                     code = ''require(\"./missing\");'', mapping = Some [(''./missing'', 1)]\<rparr>,
                    \<lparr>asset_id = 1, filename = ''missing'', dependencies = [],
                     code = ''exports.default = 1;'', mapping = Some []\<rparr>]), 2)"
    by (simp add: script_def build_def)
  from d f r c g s show ?thesis by (intro conjI)
qed



subsection \<open>The order of the graph\<close>

lemma concat_nth_block:
  "k < length xss \<Longrightarrow> j < length (xss ! k) \<Longrightarrow>
     sum_list (map length (take k xss)) + j < length (concat xss) \<and>
     concat xss ! (sum_list (map length (take k xss)) + j) = xss ! k ! j"
proof (induction xss arbitrary: k)
  case Nil
  then show ?case by simp
next
  case (Cons xs xss)
  show ?case
  proof (cases k)
    case 0
    with Cons.prems show ?thesis by (simp add: nth_append)
  next
    case (Suc k')
    with Cons.prems Cons.IH [of k'] show ?thesis by (simp add: nth_append)
  qed
qed

lemma child_start_targets:
  "child_start g k = 1 + sum_list (map length (take k (map (targets E) g)))"
  by (simp add: child_start_def targets_def take_map comp_def)

lemma graph_child:
  assumes fn: "map filename g = entry # concat (map (targets E) g)"
    and k: "k < length g" and j: "j < length (dependencies (g ! k))"
  shows "child_start g k + j < length g \<and>
         filename (g ! (child_start g k + j)) =
           path_join E (path_dirname E (filename (g ! k))) (dependencies (g ! k) ! j)"
proof -
  let ?xss = "map (targets E) g"
  let ?off = "sum_list (map length (take k ?xss))"
  have k': "k < length ?xss" using k by simp
  have j': "j < length (?xss ! k)" using k j by (simp add: targets_def)
  from concat_nth_block [OF k' j'] have
    lt: "?off + j < length (concat ?xss)" and
    nth: "concat ?xss ! (?off + j) = ?xss ! k ! j" by simp_all
  have len: "length g = 1 + length (concat ?xss)"
  proof -
    have "length g = length (map filename g)" by simp
    also have "\<dots> = 1 + length (concat ?xss)" by (simp only: fn) simp
    finally show ?thesis .
  qed
  have cs: "child_start g k + j = Suc (?off + j)" by (simp add: child_start_targets [of g k E])
  have c: "child_start g k + j < length g" using lt len cs by simp
  have "filename (g ! (child_start g k + j)) = map filename g ! (child_start g k + j)"
    using c by simp
  also have "\<dots> = concat ?xss ! (?off + j)" by (simp only: fn cs) simp
  also have "\<dots> = path_join E (path_dirname E (filename (g ! k))) (dependencies (g ! k) ! j)"
    using nth k j by (simp add: targets_def)
  finally show ?thesis using c by simp
qed

lemma for_of_queue_round:
  "visit E i q ID = (Inr q', ID') \<Longrightarrow> i < length q \<Longrightarrow> j = i + 1 \<Longrightarrow>
     for_of_queue E i q ID = for_of_queue E j q' ID'"
  by (simp add: for_of_queue.simps [of E i q ID])

lemma for_of_queue_done: "\<not> i < length q \<Longrightarrow> for_of_queue E i q ID = Some (Inr q, ID)"
  by (simp add: for_of_queue.simps [of E i q ID])

lemma obj_set_fresh_plain:
  "k \<noteq> ''__proto__'' \<Longrightarrow> \<not> is_array_index k \<Longrightarrow> obj_set [] k v = [(k, v)]"
  by (simp add: obj_set_def)

lemma createGraph_complete:
  assumes "createGraph E entry ID0 = Some (Inr g, ID')"
  shows "map asset_id g = [ID0 ..< ID0 + length g]"
    and "map filename g = entry # concat (map (targets E) g)"
    and "\<And>k. k < length g \<Longrightarrow> mapping (g ! k) =
            Some (record_children [] (dependencies (g ! k)) (ID0 + child_start g k))"
    and "\<And>a. a \<in> set g \<Longrightarrow> built E a"
    and "ID' = ID0 + length g"
  using createGraph_inv [OF assms] by (simp_all add: graph_inv_def)

text \<open>
  C3. When \<open>createGraph\<close> returns a graph, the graph is the queue: the entry first, then the
  children of the first asset in the order of its specifiers, then the children of the
  second asset, and so on, each child built from the join of its specifier with the
  directory of the asset that imports it, and each asset mapping its specifiers to the
  ids of its own children. The child for specifier \<open>j\<close> of the asset at position \<open>k\<close> sits
  at position \<open>child_start g k + j\<close>. In particular an entry that imports \<^verbatim>\<open>./a\<close>, which
  imports \<^verbatim>\<open>./b\<close>, gives three assets with ids 0, 1, 2 and the mappings \<^verbatim>\<open>{"./a": 1}\<close>,
  \<^verbatim>\<open>{"./b": 2}\<close> and \<^verbatim>\<open>{}\<close>.
\<close>

theorem createGraph_fifo:
  "(createGraph E entry ID0 = Some (Inr g, ID') \<longrightarrow>
      map filename g = entry # concat (map (targets E) g) \<and>
      map asset_id g = [ID0 ..< ID0 + length g] \<and>
      (\<forall>k < length g.
         mapping (g ! k) =
           Some (record_children [] (dependencies (g ! k)) (ID0 + child_start g k)) \<and>
         (\<forall>j < length (dependencies (g ! k)).
            child_start g k + j < length g \<and>
            filename (g ! (child_start g k + j)) =
              path_join E (path_dirname E (filename (g ! k))) (dependencies (g ! k) ! j)))) \<and>
   (createAsset E entry 0 = (Inr a0, 1) \<and> dependencies a0 = [''./a''] \<and>
    createAsset E (path_join E (path_dirname E entry) ''./a'') 1 = (Inr a1, 2) \<and>
    dependencies a1 = [''./b''] \<and>
    createAsset E (path_join E (path_dirname E (filename a1)) ''./b'') 2 = (Inr a2, 3) \<and>
    dependencies a2 = []
    \<longrightarrow> createGraph E entry 0 =
          Some (Inr [a0\<lparr>mapping := Some [(''./a'', 1)]\<rparr>, a1\<lparr>mapping := Some [(''./b'', 2)]\<rparr>,
                     a2\<lparr>mapping := Some []\<rparr>], 3))"
proof (intro conjI impI)
  assume b: "createGraph E entry ID0 = Some (Inr g, ID')"
  note c = createGraph_complete [OF b]
  show "map filename g = entry # concat (map (targets E) g)" by (rule c(2))
  show "map asset_id g = [ID0 ..< ID0 + length g]" by (rule c(1))
  show "\<forall>k < length g.
         mapping (g ! k) =
           Some (record_children [] (dependencies (g ! k)) (ID0 + child_start g k)) \<and>
         (\<forall>j < length (dependencies (g ! k)).
            child_start g k + j < length g \<and>
            filename (g ! (child_start g k + j)) =
              path_join E (path_dirname E (filename (g ! k))) (dependencies (g ! k) ! j))"
    using c(3) graph_child [OF c(2)] by blast
next
  assume s: "createAsset E entry 0 = (Inr a0, 1) \<and> dependencies a0 = [''./a''] \<and>
    createAsset E (path_join E (path_dirname E entry) ''./a'') 1 = (Inr a1, 2) \<and>
    dependencies a1 = [''./b''] \<and>
    createAsset E (path_join E (path_dirname E (filename a1)) ''./b'') 2 = (Inr a2, 3) \<and>
    dependencies a2 = []"
  then have c0: "createAsset E entry 0 = (Inr a0, 1)" and d0: "dependencies a0 = [''./a'']"
    and c1: "createAsset E (path_join E (path_dirname E entry) ''./a'') 1 = (Inr a1, 2)"
    and d1: "dependencies a1 = [''./b'']"
    and c2: "createAsset E (path_join E (path_dirname E (filename a1)) ''./b'') 2 = (Inr a2, 3)"
    and d2: "dependencies a2 = []"
    by simp_all
  have f0: "filename a0 = entry" using createAsset_Inr(3) [OF c0] .
  have p: "\<And>v. obj_set [] ''./a'' v = [(''./a'', v)]" "\<And>v. obj_set [] ''./b'' v = [(''./b'', v)]"
    by (simp_all add: obj_set_fresh_plain is_array_index_def is_digit_def)
  let ?b0 = "a0\<lparr>mapping := Some [(''./a'', 1)]\<rparr>"
  let ?b1 = "a1\<lparr>mapping := Some [(''./b'', 2)]\<rparr>"
  let ?b2 = "a2\<lparr>mapping := Some []\<rparr>"
  have v0: "visit E 0 [a0] 1 = (Inr [?b0, a1], 2)"
    using c1 by (simp add: visit_def d0 f0 createAsset_Inr(2) [OF c1] p)
  have v1: "visit E 1 [?b0, a1] 2 = (Inr [?b0, ?b1, a2], 3)"
    using c2 by (simp add: visit_def d1 createAsset_Inr(2) [OF c2] p)
  have v2: "visit E 2 [?b0, ?b1, a2] 3 = (Inr [?b0, ?b1, ?b2], 3)"
    by (simp add: visit_def d2)
  have "for_of_queue E 0 [a0] 1 = for_of_queue E 1 [?b0, a1] 2"
    by (rule for_of_queue_round [OF v0]) simp_all
  also have "\<dots> = for_of_queue E 2 [?b0, ?b1, a2] 3"
    by (rule for_of_queue_round [OF v1]) simp_all
  also have "\<dots> = for_of_queue E 3 [?b0, ?b1, ?b2] 3"
    by (rule for_of_queue_round [OF v2]) simp_all
  also have "\<dots> = Some (Inr [?b0, ?b1, ?b2], 3)"
    by (rule for_of_queue_done) simp
  finally have "for_of_queue E 0 [a0] 1 = Some (Inr [?b0, ?b1, ?b2], 3)" .
  then show "createGraph E entry 0 = Some (Inr [?b0, ?b1, ?b2], 3)"
    using c0 by (simp add: createGraph_def)
qed


theorem createGraph_fifo_witness:
  "createAsset chain_env ''./entry.js'' 0 =
     (Inr \<lparr>asset_id = 0, filename = ''./entry.js'', dependencies = [''./a''],
           code = ''require(\"./a\");'', mapping = None\<rparr>, 1)
   \<and> createAsset chain_env ''a'' 1 =
     (Inr \<lparr>asset_id = 1, filename = ''a'', dependencies = [''./b''],
           code = ''require(\"./b\");'', mapping = None\<rparr>, 2)
   \<and> createAsset chain_env ''b'' 2 =
     (Inr \<lparr>asset_id = 2, filename = ''b'', dependencies = [],
           code = ''exports.default = 1;'', mapping = None\<rparr>, 3)
   \<and> createGraph chain_env ''./entry.js'' 0 =
     Some (Inr [\<lparr>asset_id = 0, filename = ''./entry.js'', dependencies = [''./a''],
                 code = ''require(\"./a\");'', mapping = Some [(''./a'', 1)]\<rparr>,
                \<lparr>asset_id = 1, filename = ''a'', dependencies = [''./b''],
                 code = ''require(\"./b\");'', mapping = Some [(''./b'', 2)]\<rparr>,
                \<lparr>asset_id = 2, filename = ''b'', dependencies = [],
                 code = ''exports.default = 1;'', mapping = Some []\<rparr>], 3)
   \<and> map filename
         [\<lparr>asset_id = 0, filename = ''./entry.js'', dependencies = [''./a''],
           code = ''require(\"./a\");'', mapping = Some [(''./a'', 1)]\<rparr>,
          \<lparr>asset_id = 1, filename = ''a'', dependencies = [''./b''],
           code = ''require(\"./b\");'', mapping = Some [(''./b'', 2)]\<rparr>,
          \<lparr>asset_id = 2, filename = ''b'', dependencies = [],
           code = ''exports.default = 1;'', mapping = Some []\<rparr>]
       = [''./entry.js'', ''a'', ''b'']"
proof -
  let ?a0 = "\<lparr>asset_id = 0, filename = ''./entry.js'', dependencies = [''./a''],
           code = ''require(\"./a\");'', mapping = None\<rparr>"
  let ?a1 = "\<lparr>asset_id = 1, filename = ''a'', dependencies = [''./b''],
           code = ''require(\"./b\");'', mapping = None\<rparr>"
  let ?a2 = "\<lparr>asset_id = 2, filename = ''b'', dependencies = [],
           code = ''exports.default = 1;'', mapping = None\<rparr>"
  have c0: "createAsset chain_env ''./entry.js'' 0 = (Inr ?a0, 1)"
    by (simp add: chain_env_def project_simps)
  have c1: "createAsset chain_env ''a'' 1 = (Inr ?a1, 2)"
    by (simp add: chain_env_def project_simps)
  have c2: "createAsset chain_env ''b'' 2 = (Inr ?a2, 3)"
    by (simp add: chain_env_def project_simps)
  have p: "path_join chain_env (path_dirname chain_env ''./entry.js'') ''./a'' = ''a''"
    "path_join chain_env (path_dirname chain_env ''a'') ''./b'' = ''b''"
    by (simp_all add: chain_env_def project_env_def strip_dot_slash_def)
  let ?g = "[?a0\<lparr>mapping := Some [(''./a'', 1)]\<rparr>, ?a1\<lparr>mapping := Some [(''./b'', 2)]\<rparr>,
                ?a2\<lparr>mapping := Some []\<rparr>]"
  note fifo = createGraph_fifo [of chain_env "''./entry.js''" 0 ?g 3 ?a0 ?a1 ?a2]
  from fifo [THEN conjunct2] c0 c1 c2 p
  have g: "createGraph chain_env ''./entry.js'' 0 =
     Some (Inr [?a0\<lparr>mapping := Some [(''./a'', 1)]\<rparr>, ?a1\<lparr>mapping := Some [(''./b'', 2)]\<rparr>,
                ?a2\<lparr>mapping := Some []\<rparr>], 3)"
    by simp
  with fifo [THEN conjunct1] have "map filename ?g = ''./entry.js'' # concat (map (targets chain_env) ?g)"
    by blast
  then have "map filename ?g = [''./entry.js'', ''a'', ''b'']" by simp
  with g c0 c1 c2 show ?thesis by simp
qed


subsection \<open>No deduplication\<close>

lemma child_start_Suc:
  "k < length g \<Longrightarrow> child_start g (Suc k) = child_start g k + length (dependencies (g ! k))"
  by (simp add: child_start_def take_Suc_conv_app_nth)

lemma child_start_step: "child_start g k \<le> child_start g (Suc k)"
proof (cases "k < length g")
  case True
  then show ?thesis by (simp add: child_start_Suc)
next
  case False
  then show ?thesis by (simp add: child_start_def)
qed

lemma child_start_mono: "k1 \<le> k2 \<Longrightarrow> child_start g k1 \<le> child_start g k2"
proof (induction k2)
  case 0
  then show ?case by simp
next
  case (Suc k2)
  show ?case
  proof (cases "k1 = Suc k2")
    case True
    then show ?thesis by simp
  next
    case False
    with Suc.prems have "k1 \<le> k2" by simp
    from Suc.IH [OF this] child_start_step [of g k2] show ?thesis by simp
  qed
qed

lemma child_ranges_apart:
  assumes "k1 < k2" and "k1 < length g" and "j1 < length (dependencies (g ! k1))"
  shows "child_start g k1 + j1 < child_start g k2 + j2"
proof -
  have "child_start g k1 + j1 < child_start g (Suc k1)"
    using assms(2,3) by (simp add: child_start_Suc)
  also have "\<dots> \<le> child_start g k2" using assms(1) by (simp add: child_start_mono)
  finally show ?thesis by simp
qed

lemma child_position_inj:
  assumes "k1 < length g" "j1 < length (dependencies (g ! k1))"
    and "k2 < length g" "j2 < length (dependencies (g ! k2))"
    and "child_start g k1 + j1 = child_start g k2 + j2"
  shows "k1 = k2 \<and> j1 = j2"
proof -
  have "\<not> k1 < k2" using child_ranges_apart [of k1 k2 g j1 j2] assms by auto
  moreover have "\<not> k2 < k1" using child_ranges_apart [of k2 k1 g j2 j1] assms by auto
  ultimately have "k1 = k2" by simp
  with assms(5) show ?thesis by simp
qed

lemma graph_size:
  assumes "map filename g = entry # concat (map (targets E) g)"
  shows "length g = 1 + sum_list (map (\<lambda>a. length (dependencies a)) g)"
  using child_start_queue_length [of g entry E "length g"] assms
  by (simp add: child_start_def)

lemma graph_id_at:
  assumes "map asset_id g = [ID0 ..< ID0 + length g]" and "c < length g"
  shows "asset_id (g ! c) = ID0 + c"
proof -
  have "asset_id (g ! c) = map asset_id g ! c" using assms(2) by simp
  also have "\<dots> = ID0 + c" using assms(2) by (simp only: assms(1)) simp
  finally show ?thesis .
qed

lemma state_child:
  assumes fn: "map filename q = entry # concat (map (targets E) (take i q))"
    and i: "i \<le> length q" and k: "k < i" and j: "j < length (dependencies (q ! k))"
  shows "child_start q k + j < length q \<and>
         filename (q ! (child_start q k + j)) =
           path_join E (path_dirname E (filename (q ! k))) (dependencies (q ! k) ! j)"
proof -
  let ?xss = "map (targets E) (take i q)"
  let ?off = "sum_list (map length (take k ?xss))"
  have k': "k < length ?xss" using k i by simp
  have at: "?xss ! k = targets E (q ! k)" using k i by simp
  have j': "j < length (?xss ! k)" using j by (simp only: at) (simp add: targets_def)
  from concat_nth_block [OF k' j'] have
    lt: "?off + j < length (concat ?xss)" and
    nth: "concat ?xss ! (?off + j) = ?xss ! k ! j" by simp_all
  have len: "length q = 1 + length (concat ?xss)"
  proof -
    have "length q = length (map filename q)" by simp
    also have "\<dots> = 1 + length (concat ?xss)" by (simp only: fn) simp
    finally show ?thesis .
  qed
  have tk: "take k (take i q) = take k q" using k by (simp add: min_def)
  have "child_start q k = 1 + sum_list (map length (map (targets E) (take k (take i q))))"
    by (simp only: tk) (simp add: child_start_def targets_def comp_def)
  then have cs: "child_start q k + j = Suc (?off + j)" by (simp add: take_map)
  have c: "child_start q k + j < length q" using lt len cs by simp
  have "filename (q ! (child_start q k + j)) = map filename q ! (child_start q k + j)"
    using c by simp
  also have "\<dots> = concat ?xss ! (?off + j)" by (simp only: fn cs) simp
  also have "\<dots> = path_join E (path_dirname E (filename (q ! k))) (dependencies (q ! k) ! j)"
    using nth j by (simp only: at) (simp add: targets_def)
  finally show ?thesis using c by simp
qed

lemma state_children_apart:
  assumes inv: "graph_inv E ID0 entry i q ID"
    and "k1 < i" and "j1 < length (dependencies (q ! k1))"
    and "k2 < i" and "j2 < length (dependencies (q ! k2))"
    and "(k1, j1) \<noteq> (k2, j2)"
    and "path_join E (path_dirname E (filename (q ! k1))) (dependencies (q ! k1) ! j1) = target"
    and "path_join E (path_dirname E (filename (q ! k2))) (dependencies (q ! k2) ! j2) = target"
  shows "child_start q k1 + j1 < length q \<and> child_start q k2 + j2 < length q \<and>
         child_start q k1 + j1 \<noteq> child_start q k2 + j2 \<and>
         asset_id (q ! (child_start q k1 + j1)) \<noteq> asset_id (q ! (child_start q k2 + j2)) \<and>
         filename (q ! (child_start q k1 + j1)) = target \<and>
         filename (q ! (child_start q k2 + j2)) = target \<and>
         createAsset E target (asset_id (q ! (child_start q k1 + j1))) =
           (Inr ((q ! (child_start q k1 + j1))\<lparr>mapping := None\<rparr>),
            asset_id (q ! (child_start q k1 + j1)) + 1) \<and>
         createAsset E target (asset_id (q ! (child_start q k2 + j2))) =
           (Inr ((q ! (child_start q k2 + j2))\<lparr>mapping := None\<rparr>),
            asset_id (q ! (child_start q k2 + j2)) + 1) \<and>
         length q = 1 + sum_list (map (\<lambda>a. length (dependencies a)) (take i q))"
proof -
  from inv have I: "i \<le> length q" "map asset_id q = [ID0 ..< ID0 + length q]"
    "map filename q = entry # concat (map (targets E) (take i q))"
    "\<forall>a \<in> set q. built E a"
    by (simp_all add: graph_inv_def)
  let ?c1 = "child_start q k1 + j1" and ?c2 = "child_start q k2 + j2"
  from assms(2,4) I(1) have kl: "k1 < length q" "k2 < length q" by simp_all
  from state_child [OF I(3) I(1) assms(2,3)] assms(7)
  have c1: "?c1 < length q" "filename (q ! ?c1) = target" by simp_all
  from state_child [OF I(3) I(1) assms(4,5)] assms(8)
  have c2: "?c2 < length q" "filename (q ! ?c2) = target" by simp_all
  have ne: "?c1 \<noteq> ?c2"
    using child_position_inj [OF kl(1) assms(3) kl(2) assms(5)] assms(6) by auto
  have ids: "asset_id (q ! ?c1) \<noteq> asset_id (q ! ?c2)"
    using graph_id_at [OF I(2) c1(1)] graph_id_at [OF I(2) c2(1)] ne by simp
  have b1: "built E (q ! ?c1)" using I(4) c1(1) by simp
  have b2: "built E (q ! ?c2)" using I(4) c2(1) by simp
  have sz: "length q = 1 + sum_list (map (\<lambda>a. length (dependencies a)) (take i q))"
    using child_start_queue_length [OF I(3)] by (simp add: child_start_def)
  from b1 b2 c1 c2 ne ids sz show ?thesis
    by (simp add: built_def)
qed

text \<open>
  A build of the self-importing entry enters round after round and never returns.
\<close>

lemma createAsset_self:
  "createAsset self_env ''entry.js'' ID =
     (Inr \<lparr>asset_id = ID, filename = ''entry.js'', dependencies = [''./entry.js'', ''entry.js''],
           code = ''require(\"./entry.js\"); require(\"entry.js\");'', mapping = None\<rparr>, ID + 1)"
  by (simp add: self_env_def project_simps)

lemma visit_self:
  assumes "i < length q" and "self_deps q"
  shows "\<exists>q'. visit self_env i q ID = (Inr q', ID + 2) \<and> i + 1 < length q' \<and> self_deps q'"
proof -
  let ?c = "\<lambda>n. \<lparr>asset_id = n, filename = ''entry.js'', dependencies = [''./entry.js'', ''entry.js''],
           code = ''require(\"./entry.js\"); require(\"entry.js\");'', mapping = None\<rparr>"
  from assms have d: "dependencies (q ! i) = [''./entry.js'', ''entry.js'']"
    by (simp add: self_deps_def list_all_length)
  have p: "path_join self_env (path_dirname self_env (filename (q ! i))) ''./entry.js'' = ''entry.js''"
    "path_join self_env (path_dirname self_env (filename (q ! i))) ''entry.js'' = ''entry.js''"
    by (simp_all add: self_env_def project_env_def strip_dot_slash_def)
  let ?m = "obj_set (obj_set [] ''./entry.js'' ID) ''entry.js'' (ID + 1)"
  let ?q' = "(q @ [?c ID, ?c (ID + 1)])[i := (q ! i)\<lparr>mapping := Some ?m\<rparr>]"
  have v: "visit self_env i q ID = (Inr ?q', ID + 2)"
    by (simp add: visit_def d p createAsset_self Let_def)
  have "self_deps ?q'"
  proof -
    have "set ?q' \<subseteq> insert ((q ! i)\<lparr>mapping := Some ?m\<rparr>) (set (q @ [?c ID, ?c (ID + 1)]))"
      by (rule set_update_subset_insert)
    with assms(2) d show ?thesis by (auto simp: self_deps_def list_all_iff)
  qed
  moreover have "i + 1 < length ?q'" using assms(1) by simp
  ultimately show ?thesis using v by blast
qed

lemma for_of_queue_self_aux:
  assumes "for_of_queue E i q ID = Some r"
  shows "E = self_env \<longrightarrow> \<not> (i < length q \<and> self_deps q)"
proof (rule for_of_queue.raw_induct
    [OF _ assms, where P = "\<lambda>E i q ID r. E = self_env \<longrightarrow> \<not> (i < length q \<and> self_deps q)"])
  fix loop :: "(string list \<times> string) env \<Rightarrow> nat \<Rightarrow> asset list \<Rightarrow> nat
      \<Rightarrow> ((error + asset list) \<times> nat) option"
  fix E i q ID r
  assume IH: "\<And>E i q ID y. loop E i q ID = Some y \<Longrightarrow>
      E = self_env \<longrightarrow> \<not> (i < length q \<and> self_deps q)"
  assume body: "(if i < length q
      then case visit E i q ID of (Inl e, ID') \<Rightarrow> Some (Inl e, ID')
           | (Inr queue', ID') \<Rightarrow> loop E (i + 1) queue' ID'
      else Some (Inr q, ID)) = Some r"
  show "E = self_env \<longrightarrow> \<not> (i < length q \<and> self_deps q)"
  proof (intro impI notI)
    assume E: "E = self_env" and inv: "i < length q \<and> self_deps q"
    from visit_self [of i q ID] inv obtain q' where
      v: "visit self_env i q ID = (Inr q', ID + 2)" and inv': "i + 1 < length q' \<and> self_deps q'"
      by blast
    from body inv E v have "loop self_env (i + 1) q' (ID + 2) = Some r" by simp
    from IH [OF this] inv' show False by simp
  qed
qed

lemma createGraph_self_never_returns: "createGraph self_env ''./entry.js'' 0 = None"
proof -
  let ?a = "\<lparr>asset_id = 0, filename = ''./entry.js'', dependencies = [''./entry.js'', ''entry.js''],
           code = ''require(\"./entry.js\"); require(\"entry.js\");'', mapping = None\<rparr>"
  have c: "createAsset self_env ''./entry.js'' 0 = (Inr ?a, 1)"
    by (simp add: self_env_def project_simps)
  have "for_of_queue self_env 0 [?a] 1 = None"
  proof (cases "for_of_queue self_env 0 [?a] 1")
    case None
    then show ?thesis .
  next
    case (Some r)
    from for_of_queue_self_aux [OF Some] show ?thesis by (simp add: self_deps_def)
  qed
  with c show ?thesis by (simp add: createGraph_def)
qed

text \<open>
  C4. Take two occurrences of specifiers (the same asset at two places of its
  dependencies, or two assets) that resolve to the same target, in any state the loop of
  \<open>createGraph\<close> reaches after the rounds of the importing assets, whether or not the loop
  ever ends, and in the graph \<open>createGraph\<close> returns when it does. Each occurrence has its
  own child in the queue, at its own position and with its own id, both with the target
  as filename, and each is what a call of \<open>createAsset\<close> of its own made of the target:
  loaded, parsed and transformed for that id. The queue holds one asset for the entry and
  one for every occurrence of a specifier in the assets visited so far.
\<close>

theorem no_deduplication:
  assumes "traversal E entry ID0 i q ID \<and> k1 < i \<and> k2 < i \<or>
           createGraph E entry ID0 = Some (Inr q, ID) \<and> k1 < length q \<and> k2 < length q \<and> i = length q"
    and "j1 < length (dependencies (q ! k1))"
    and "j2 < length (dependencies (q ! k2))"
    and "(k1, j1) \<noteq> (k2, j2)"
    and "path_join E (path_dirname E (filename (q ! k1))) (dependencies (q ! k1) ! j1) = target"
    and "path_join E (path_dirname E (filename (q ! k2))) (dependencies (q ! k2) ! j2) = target"
  shows "child_start q k1 + j1 < length q \<and> child_start q k2 + j2 < length q \<and>
         child_start q k1 + j1 \<noteq> child_start q k2 + j2 \<and>
         asset_id (q ! (child_start q k1 + j1)) \<noteq> asset_id (q ! (child_start q k2 + j2)) \<and>
         filename (q ! (child_start q k1 + j1)) = target \<and>
         filename (q ! (child_start q k2 + j2)) = target \<and>
         createAsset E target (asset_id (q ! (child_start q k1 + j1))) =
           (Inr ((q ! (child_start q k1 + j1))\<lparr>mapping := None\<rparr>),
            asset_id (q ! (child_start q k1 + j1)) + 1) \<and>
         createAsset E target (asset_id (q ! (child_start q k2 + j2))) =
           (Inr ((q ! (child_start q k2 + j2))\<lparr>mapping := None\<rparr>),
            asset_id (q ! (child_start q k2 + j2)) + 1) \<and>
         length q = 1 + sum_list (map (\<lambda>a. length (dependencies a)) (take i q))"
proof -
  from assms(1) have "graph_inv E ID0 entry i q ID \<and> k1 < i \<and> k2 < i"
  proof
    assume "traversal E entry ID0 i q ID \<and> k1 < i \<and> k2 < i"
    then show ?thesis using traversal_inv by blast
  next
    assume "createGraph E entry ID0 = Some (Inr q, ID) \<and> k1 < length q \<and> k2 < length q \<and> i = length q"
    then show ?thesis using createGraph_inv by blast
  qed
  then show ?thesis using state_children_apart [OF _ _ assms(2) _ assms(3-6)] by blast
qed

theorem no_deduplication_witness:
  "traversal self_env ''./entry.js'' 0 1
     [\<lparr>asset_id = 0, filename = ''./entry.js'', dependencies = [''./entry.js'', ''entry.js''],
       code = ''require(\"./entry.js\"); require(\"entry.js\");'',
       mapping = Some [(''./entry.js'', 1), (''entry.js'', 2)]\<rparr>,
      \<lparr>asset_id = 1, filename = ''entry.js'', dependencies = [''./entry.js'', ''entry.js''],
       code = ''require(\"./entry.js\"); require(\"entry.js\");'', mapping = None\<rparr>,
      \<lparr>asset_id = 2, filename = ''entry.js'', dependencies = [''./entry.js'', ''entry.js''],
       code = ''require(\"./entry.js\"); require(\"entry.js\");'', mapping = None\<rparr>] 3
   \<and> createGraph self_env ''./entry.js'' 0 = None
   \<and> path_join self_env (path_dirname self_env ''./entry.js'') ''./entry.js'' = ''entry.js''
   \<and> path_join self_env (path_dirname self_env ''./entry.js'') ''entry.js'' = ''entry.js''
   \<and> createAsset self_env ''entry.js'' 1 =
        (Inr \<lparr>asset_id = 1, filename = ''entry.js'', dependencies = [''./entry.js'', ''entry.js''],
              code = ''require(\"./entry.js\"); require(\"entry.js\");'', mapping = None\<rparr>, 2)
   \<and> createAsset self_env ''entry.js'' 2 =
        (Inr \<lparr>asset_id = 2, filename = ''entry.js'', dependencies = [''./entry.js'', ''entry.js''],
              code = ''require(\"./entry.js\"); require(\"entry.js\");'', mapping = None\<rparr>, 3)
   \<and> createGraph twin_env ''./entry.js'' 0 =
     Some (Inr [\<lparr>asset_id = 0, filename = ''./entry.js'', dependencies = [''./a'', ''a''],
                 code = ''require(\"./a\"); require(\"a\");'',
                 mapping = Some [(''./a'', 1), (''a'', 2)]\<rparr>,
                \<lparr>asset_id = 1, filename = ''a'', dependencies = [],
                 code = ''exports.default = 1;'', mapping = Some []\<rparr>,
                \<lparr>asset_id = 2, filename = ''a'', dependencies = [],
                 code = ''exports.default = 1;'', mapping = Some []\<rparr>], 3)
   \<and> createAsset twin_env ''a'' 1 =
        (Inr \<lparr>asset_id = 1, filename = ''a'', dependencies = [],
              code = ''exports.default = 1;'', mapping = None\<rparr>, 2)
   \<and> createAsset twin_env ''a'' 2 =
        (Inr \<lparr>asset_id = 2, filename = ''a'', dependencies = [],
              code = ''exports.default = 1;'', mapping = None\<rparr>, 3)"
proof -
  let ?c = "\<lambda>n. \<lparr>asset_id = n, filename = ''entry.js'', dependencies = [''./entry.js'', ''entry.js''],
       code = ''require(\"./entry.js\"); require(\"entry.js\");'', mapping = None\<rparr>"
  let ?a0 = "\<lparr>asset_id = 0, filename = ''./entry.js'', dependencies = [''./entry.js'', ''entry.js''],
       code = ''require(\"./entry.js\"); require(\"entry.js\");'', mapping = None\<rparr>"
  let ?q = "[?a0\<lparr>mapping := Some [(''./entry.js'', 1), (''entry.js'', 2)]\<rparr>, ?c 1, ?c 2]"
  have "createAsset self_env ''./entry.js'' 0 = (Inr ?a0, 1)"
    by (simp add: self_env_def project_simps)
  then have t0: "traversal self_env ''./entry.js'' 0 0 [?a0] 1" by (rule traversal.start)
  have v: "visit self_env 0 [?a0] 1 = (Inr ?q, 3)"
    by code_simp
  from traversal.round [OF t0 _ v] have t: "traversal self_env ''./entry.js'' 0 1 ?q 3" by simp
  have p: "path_join self_env (path_dirname self_env ''./entry.js'') ''./entry.js'' = ''entry.js''"
    "path_join self_env (path_dirname self_env ''./entry.js'') ''entry.js'' = ''entry.js''"
    by (simp_all add: self_env_def project_env_def strip_dot_slash_def)
  have cs: "child_start ?q 0 = 1" by (simp add: child_start_def)
  from no_deduplication [of self_env "''./entry.js''" 0 1 ?q 3 0 0 0 1 "''entry.js''"] t p cs
  have s: "createAsset self_env ''entry.js'' 1 = (Inr (?c 1), 2) \<and>
           createAsset self_env ''entry.js'' 2 = (Inr (?c 2), 3)"
    by simp
  let ?g = "[\<lparr>asset_id = 0, filename = ''./entry.js'', dependencies = [''./a'', ''a''],
                 code = ''require(\"./a\"); require(\"a\");'',
                 mapping = Some [(''./a'', 1), (''a'', 2)]\<rparr>,
                \<lparr>asset_id = 1, filename = ''a'', dependencies = [],
                 code = ''exports.default = 1;'', mapping = Some []\<rparr>,
                \<lparr>asset_id = 2, filename = ''a'', dependencies = [],
                 code = ''exports.default = 1;'', mapping = Some []\<rparr>]"
  have g: "createGraph twin_env ''./entry.js'' 0 = Some (Inr ?g, 3)"
    by code_simp
  have p2: "path_join twin_env (path_dirname twin_env ''./entry.js'') ''./a'' = ''a''"
    "path_join twin_env (path_dirname twin_env ''./entry.js'') ''a'' = ''a''"
    by (simp_all add: twin_env_def project_env_def strip_dot_slash_def)
  have cs2: "child_start ?g 0 = 1" by (simp add: child_start_def)
  from no_deduplication [of twin_env "''./entry.js''" 0 3 ?g 3 0 0 0 1 "''a''"] g p2 cs2
  have w: "createAsset twin_env ''a'' 1 =
          (Inr \<lparr>asset_id = 1, filename = ''a'', dependencies = [],
                code = ''exports.default = 1;'', mapping = None\<rparr>, 2) \<and>
        createAsset twin_env ''a'' 2 =
          (Inr \<lparr>asset_id = 2, filename = ''a'', dependencies = [],
                code = ''exports.default = 1;'', mapping = None\<rparr>, 3)"
    by simp
  have t': "traversal self_env ''./entry.js'' 0 1
     [\<lparr>asset_id = 0, filename = ''./entry.js'', dependencies = [''./entry.js'', ''entry.js''],
       code = ''require(\"./entry.js\"); require(\"entry.js\");'',
       mapping = Some [(''./entry.js'', 1), (''entry.js'', 2)]\<rparr>, ?c 1, ?c 2] 3"
    using t by simp
  from t' createGraph_self_never_returns p s g w show ?thesis by (intro conjI) simp_all
qed

subsection \<open>The keys of a mapping\<close>

lemma keys_replace_value: "map fst (replace_value k v m) = map fst m"
  by (induction m) auto

lemma map_of_replace_value:
  "k \<in> fst ` set m \<Longrightarrow> map_of (replace_value k v m) = (map_of m)(k \<mapsto> v)"
proof (induction m)
  case Nil
  then show ?case by simp
next
  case (Cons p m)
  obtain k' v' where p: "p = (k', v')" by (cases p)
  show ?case
  proof (cases "k' = k")
    case True
    with p show ?thesis by (auto simp: fun_eq_iff)
  next
    case False
    with Cons.prems p have "k \<in> fst ` set m" by auto
    from Cons.IH [OF this] False p show ?thesis by (auto simp: fun_eq_iff)
  qed
qed

lemma keys_insert_index: "fst ` set (insert_index k v m) = insert k (fst ` set m)"
proof (induction m)
  case Nil
  then show ?case by simp
next
  case (Cons p m)
  obtain k' v' where p: "p = (k', v')" by (cases p)
  show ?case
  proof (cases "is_array_index k' \<and> decimal_val k' < decimal_val k")
    case True
    with p have "insert_index k v (p # m) = (k', v') # insert_index k v m" by simp
    with Cons.IH p show ?thesis by auto
  next
    case False
    with p have "insert_index k v (p # m) = (k, v) # (k', v') # m" by auto
    with p show ?thesis by auto
  qed
qed

lemma distinct_insert_index:
  "k \<notin> fst ` set m \<Longrightarrow> distinct (map fst m) \<Longrightarrow> distinct (map fst (insert_index k v m))"
proof (induction m)
  case Nil
  then show ?case by simp
next
  case (Cons p m)
  obtain k' v' where p: "p = (k', v')" by (cases p)
  from Cons.prems p have IH: "distinct (map fst (insert_index k v m))" using Cons.IH by auto
  from Cons.prems p have "k' \<notin> fst ` set (insert_index k v m)"
    unfolding keys_insert_index by auto
  with Cons.prems p IH show ?case by auto
qed

lemma map_of_insert_index:
  "k \<notin> fst ` set m \<Longrightarrow> map_of (insert_index k v m) = (map_of m)(k \<mapsto> v)"
  by (induction m) (auto simp: fun_upd_twist)

lemma map_of_snoc:
  "k \<notin> fst ` set m \<Longrightarrow> map_of (m @ [(k, v)]) = (map_of m)(k \<mapsto> v)"
  by (induction m) (auto simp: fun_upd_twist)

lemma keys_obj_set:
  "fst ` set (obj_set m k v) = (if k = ''__proto__'' then fst ` set m else insert k (fst ` set m))"
proof -
  have r: "fst ` set (replace_value k v m) = fst ` set m"
    using keys_replace_value [of k v m] by (metis set_map)
  note i = keys_insert_index [of k v m]
  show ?thesis by (auto simp: obj_set_def r i)
qed

lemma distinct_obj_set:
  "distinct (map fst m) \<Longrightarrow> distinct (map fst (obj_set m k v))"
  by (auto simp: obj_set_def keys_replace_value distinct_insert_index)

lemma map_of_obj_set:
  "map_of (obj_set m k v) = (if k = ''__proto__'' then map_of m else (map_of m)(k \<mapsto> v))"
  by (simp add: obj_set_def map_of_replace_value map_of_insert_index map_of_snoc
      del: map_of_append)

lemma keys_record_children:
  "fst ` set (record_children m ds n) = fst ` set m \<union> (set ds - {''__proto__''})"
  by (induction ds arbitrary: m n) (auto simp: keys_obj_set)

lemma distinct_record_children:
  "distinct (map fst m) \<Longrightarrow> distinct (map fst (record_children m ds n))"
  by (induction ds arbitrary: m n) (simp_all add: distinct_obj_set)

lemma map_of_record_children:
  "map_of (record_children m ds n) s =
     (if s = ''__proto__'' then map_of m s
      else case last_pos ds s of None \<Rightarrow> map_of m s | Some j \<Rightarrow> Some (n + j))"
  by (induction ds arbitrary: m n) (auto simp: map_of_obj_set split: option.splits)

lemma last_pos_Some:
  "last_pos ds s = Some j \<Longrightarrow>
     j < length ds \<and> ds ! j = s \<and> (\<forall>j'. j < j' \<and> j' < length ds \<longrightarrow> ds ! j' \<noteq> s)"
proof (induction ds arbitrary: j)
  case Nil
  then show ?case by simp
next
  case (Cons d ds)
  show ?case
  proof (cases "last_pos ds s")
    case None
    have no: "s \<notin> set ds"
    proof
      assume "s \<in> set ds"
      then show False using None
        by (induction ds) (auto split: option.splits if_splits)
    qed
    from None Cons.prems have "d = s" "j = 0" by (auto split: if_splits)
    moreover have "\<forall>j'. 0 < j' \<and> j' < length (d # ds) \<longrightarrow> (d # ds) ! j' \<noteq> s"
    proof (intro allI impI)
      fix j' assume "0 < j' \<and> j' < length (d # ds)"
      then obtain i where "j' = Suc i" "i < length ds" by (cases j') auto
      with no show "(d # ds) ! j' \<noteq> s" by (auto simp: in_set_conv_nth)
    qed
    ultimately show ?thesis by simp
  next
    case (Some i)
    with Cons.prems have j: "j = Suc i" by simp
    from Cons.IH [OF Some] have i: "i < length ds" "ds ! i = s"
      "\<forall>j'. i < j' \<and> j' < length ds \<longrightarrow> ds ! j' \<noteq> s" by simp_all
    have "\<forall>j'. Suc i < j' \<and> j' < length (d # ds) \<longrightarrow> (d # ds) ! j' \<noteq> s"
    proof (intro allI impI)
      fix j' assume a: "Suc i < j' \<and> j' < length (d # ds)"
      then obtain i' where "j' = Suc i'" by (cases j') auto
      with a i(3) show "(d # ds) ! j' \<noteq> s" by auto
    qed
    with i j show ?thesis by simp
  qed
qed

lemma last_pos_last:
  "j < length ds \<Longrightarrow> ds ! j = s \<Longrightarrow> \<forall>j'. j < j' \<and> j' < length ds \<longrightarrow> ds ! j' \<noteq> s \<Longrightarrow>
     last_pos ds s = Some j"
proof -
  assume j: "j < length ds" "ds ! j = s" "\<forall>j'. j < j' \<and> j' < length ds \<longrightarrow> ds ! j' \<noteq> s"
  have ex: "last_pos ds s \<noteq> None" if "s \<in> set ds" for ds
    using that by (induction ds) (auto split: option.splits)
  from j have "s \<in> set ds" by auto
  from ex [OF this] obtain i where i: "last_pos ds s = Some i" by auto
  from last_pos_Some [OF i] j have "\<not> i < j" "\<not> j < i" by auto
  with i show ?thesis by simp
qed

text \<open>
  In a graph that \<open>createGraph\<close> returns every asset has a \<^verbatim>\<open>mapping\<close>, and its keys are the
  specifiers of the asset other than \<^verbatim>\<open>__proto__\<close>, each once.
\<close>

lemma mapping_keys:
  assumes "createGraph E entry ID0 = Some (Inr g, ID')" and "a \<in> set g"
  shows "\<exists>m. mapping a = Some m \<and> distinct (map fst m) \<and>
              fst ` set m = set (dependencies a) - {''__proto__''}"
proof -
  from assms(2) obtain k where k: "k < length g" "a = g ! k" by (auto simp: in_set_conv_nth)
  from createGraph_complete(3) [OF assms(1) k(1)] k(2)
  have "mapping a = Some (record_children [] (dependencies a) (ID0 + child_start g k))" by simp
  then show ?thesis
    using keys_record_children [of "[]" "dependencies a"]
      distinct_record_children [of "[]" "dependencies a"] by simp
qed

text \<open>
  C5 fails on the code for the specifier \<^verbatim>\<open>__proto__\<close>. The entry imports it, the child is
  built and gets id 1, and the assignment \<^verbatim>\<open>asset.mapping["__proto__"] = 1\<close> leaves the object
  without any key: the dependencies are \<^verbatim>\<open>["__proto__"]\<close> and the mapping is \<^verbatim>\<open>{}\<close>.
\<close>

theorem mapping_keys_proto:
  "createGraph proto_env ''./entry.js'' 0 =
     Some (Inr [\<lparr>asset_id = 0, filename = ''./entry.js'', dependencies = [''__proto__''],
                 code = ''require(\"__proto__\");'', mapping = Some []\<rparr>,
                \<lparr>asset_id = 1, filename = ''__proto__'', dependencies = [],
                 code = ''exports.default = 1;'', mapping = Some []\<rparr>], 2)"
  by code_simp

subsection \<open>A specifier imported more than once\<close>

lemma foldl_module_text:
  "foldl (\<lambda>modules module. modules @ module_text module) acc graph
     = acc @ concat (map module_text graph)"
  by (induction graph arbitrary: acc) simp_all

lemma bundle_js_concat:
  "bundle_js graph = runtime_head @ concat (map module_text graph) @ runtime_tail"
  by (simp add: bundle_js_def foldl_module_text)

lemma bundle_js_embeds:
  assumes "a \<in> set graph"
  shows "\<exists>before after. bundle_js graph = before @ module_text a @ after"
proof -
  from assms obtain xs ys where "graph = xs @ a # ys" by (auto simp: in_set_conv_decomp)
  then have "bundle_js graph =
      (runtime_head @ concat (map module_text xs)) @ module_text a @
      (concat (map module_text ys) @ runtime_tail)"
    by (simp add: bundle_js_concat)
  then show ?thesis by blast
qed

text \<open>
  For a specifier other than \<^verbatim>\<open>__proto__\<close> that stands at the places \<open>j1 < j2\<close> of an asset's
  dependencies, \<open>j2\<close> the last one: both places have a child of their own in the graph,
  the mapping of the asset gives the specifier the id of the child for \<open>j2\<close>, no mapping
  of the graph holds the id of the child for \<open>j1\<close>, and the bundle holds the text of that
  child all the same.
\<close>

lemma duplicate_specifier:
  assumes b: "createGraph E entry ID0 = Some (Inr g, ID')"
    and k: "k < length g"
    and j: "j1 < j2" "j2 < length (dependencies (g ! k))"
    and s: "dependencies (g ! k) ! j1 = s" "dependencies (g ! k) ! j2 = s"
    and last: "\<forall>j. j2 < j \<and> j < length (dependencies (g ! k)) \<longrightarrow> dependencies (g ! k) ! j \<noteq> s"
    and np: "s \<noteq> ''__proto__''"
  shows "child_start g k + j1 < length g \<and> child_start g k + j2 < length g \<and>
         asset_id (g ! (child_start g k + j1)) \<noteq> asset_id (g ! (child_start g k + j2)) \<and>
         built E (g ! (child_start g k + j1)) \<and> built E (g ! (child_start g k + j2)) \<and>
         (\<exists>m. mapping (g ! k) = Some m \<and>
              obj_get m s = Some (asset_id (g ! (child_start g k + j2)))) \<and>
         (\<forall>b \<in> set g. \<forall>m. mapping b = Some m \<longrightarrow>
              asset_id (g ! (child_start g k + j1)) \<notin> snd ` set m) \<and>
         (\<exists>before after.
              bundle_js g = before @ module_text (g ! (child_start g k + j1)) @ after)"
proof -
  note c = createGraph_complete [OF b]
  let ?ds = "dependencies (g ! k)"
  let ?c1 = "child_start g k + j1" and ?c2 = "child_start g k + j2"
  from j have j1: "j1 < length ?ds" by simp
  from graph_child [OF c(2) k j1] have c1: "?c1 < length g" by simp
  from graph_child [OF c(2) k j(2)] have c2: "?c2 < length g" by simp
  have id1: "asset_id (g ! ?c1) = ID0 + ?c1" by (rule graph_id_at [OF c(1) c1])
  have id2: "asset_id (g ! ?c2) = ID0 + ?c2" by (rule graph_id_at [OF c(1) c2])
  have ne: "asset_id (g ! ?c1) \<noteq> asset_id (g ! ?c2)" using id1 id2 j(1) by simp
  have lp: "last_pos ?ds s = Some j2" using last_pos_last [OF j(2) s(2) last] .
  have m: "mapping (g ! k) = Some (record_children [] ?ds (ID0 + child_start g k))"
    by (rule c(3) [OF k])
  have get: "obj_get (record_children [] ?ds (ID0 + child_start g k)) s = Some (asset_id (g ! ?c2))"
    using np lp id2 by (simp add: obj_get_def map_of_record_children)
  have unreach: "asset_id (g ! ?c1) \<notin> snd ` set m'" if bm: "b \<in> set g" "mapping b = Some m'" for b m'
  proof
    assume "asset_id (g ! ?c1) \<in> snd ` set m'"
    then obtain key where key: "(key, ID0 + ?c1) \<in> set m'" using id1 by auto
    from bm(1) obtain kb where kb: "kb < length g" "b = g ! kb" by (auto simp: in_set_conv_nth)
    let ?db = "dependencies (g ! kb)"
    from c(3) [OF kb(1)] bm(2) kb(2)
    have m': "m' = record_children [] ?db (ID0 + child_start g kb)" by simp
    have "distinct (map fst m')" unfolding m' by (rule distinct_record_children) simp
    with key have look: "map_of m' key = Some (ID0 + ?c1)" by simp
    from key have "key \<in> fst ` set m'" by force
    then have kp: "key \<noteq> ''__proto__''" unfolding m' keys_record_children by simp
    from look kp obtain j where lj: "last_pos ?db key = Some j"
      and v: "ID0 + ?c1 = ID0 + child_start g kb + j"
      unfolding m' by (auto simp: map_of_record_children split: option.splits)
    note L = last_pos_Some [OF lj]
    from L have jb: "j < length ?db" by simp
    from v have "child_start g k + j1 = child_start g kb + j" by simp
    from child_position_inj [OF k j1 kb(1) jb this] have same: "k = kb" "j1 = j" by simp_all
    with L s(1) have "key = s" by simp
    with L same j s(2) show False by auto
  qed
  from c(4) c1 c2 ne m get unreach bundle_js_embeds [of "g ! ?c1" g] show ?thesis
    by (simp add: nth_mem)
qed


lemma duplicate_specifier_example:
  "createGraph twice_env ''./entry.js'' 0 =
     Some (Inr [\<lparr>asset_id = 0, filename = ''./entry.js'', dependencies = [''./a'', ''./a''],
                 code = ''require(\"./a\"); require(\"./a\");'',
                 mapping = Some [(''./a'', 2)]\<rparr>,
                \<lparr>asset_id = 1, filename = ''a'', dependencies = [],
                 code = ''exports.default = 1;'', mapping = Some []\<rparr>,
                \<lparr>asset_id = 2, filename = ''a'', dependencies = [],
                 code = ''exports.default = 1;'', mapping = Some []\<rparr>], 3)"
  by code_simp

text \<open>
  C10 fails on the code for the specifier \<^verbatim>\<open>__proto__\<close>. The entry imports it twice, a
  child is built and queued for each occurrence (ids 1 and 2), and the mapping of the
  entry records neither id: it stays \<^verbatim>\<open>{}\<close>, where the claim has it record the id of the
  child for the last occurrence.
\<close>

theorem duplicate_proto:
  "createGraph proto_twice_env ''./entry.js'' 0 =
     Some (Inr [\<lparr>asset_id = 0, filename = ''./entry.js'',
                 dependencies = [''__proto__'', ''__proto__''],
                 code = ''require(\"__proto__\"); require(\"__proto__\");'', mapping = Some []\<rparr>,
                \<lparr>asset_id = 1, filename = ''__proto__'', dependencies = [],
                 code = ''exports.default = 1;'', mapping = Some []\<rparr>,
                \<lparr>asset_id = 2, filename = ''__proto__'', dependencies = [],
                 code = ''exports.default = 1;'', mapping = Some []\<rparr>], 3)"
  by code_simp


subsection \<open>Emission\<close>

lemma module_text_cong:
  "asset_id a = asset_id b \<Longrightarrow> code a = code b \<Longrightarrow> mapping a = mapping b \<Longrightarrow>
     module_text a = module_text b"
  by (simp add: module_text_def)

lemma map_module_text_cong:
  "map asset_id g' = map asset_id g \<Longrightarrow> map code g' = map code g \<Longrightarrow>
   map mapping g' = map mapping g \<Longrightarrow> map module_text g' = map module_text g"
proof (induction g arbitrary: g')
  case Nil
  then show ?case by simp
next
  case (Cons a g)
  then obtain b h where g': "g' = b # h" by (cases g') auto
  with Cons.prems have "module_text b = module_text a" by (intro module_text_cong) simp_all
  moreover from g' Cons.prems have "map module_text h = map module_text g"
    by (intro Cons.IH) simp_all
  ultimately show ?case using g' by simp
qed

text \<open>
  C6. The text \<open>bundle_js\<close> returns is the fixed head of the runtime, the texts of the
  modules in the order of the graph, and the fixed tail; it is made of the id, the code
  and the mapping of each asset and of nothing else. So two calls on the same graph, or
  on graphs that agree in these, return the same text.
\<close>

theorem bundle_js_deterministic:
  "bundle_js g = runtime_head @ concat (map module_text g) @ runtime_tail \<and>
   (\<forall>g' :: asset list. map asset_id g' = map asset_id g \<and> map code g' = map code g \<and>
         map mapping g' = map mapping g \<longrightarrow> bundle_js g' = bundle_js g)"
proof (intro conjI allI impI)
  show "bundle_js g = runtime_head @ concat (map module_text g) @ runtime_tail"
    by (rule bundle_js_concat)
next
  fix g' :: "asset list"
  assume "map asset_id g' = map asset_id g \<and> map code g' = map code g \<and>
         map mapping g' = map mapping g"
  then have "map module_text g' = map module_text g" by (intro map_module_text_cong) simp_all
  then show "bundle_js g' = bundle_js g" by (simp only: bundle_js_concat)
qed

theorem bundle_js_deterministic_witness:
  "map asset_id (map (\<lambda>a. a\<lparr>filename := ''x''\<rparr>) twice_graph) = map asset_id twice_graph \<and>
   map code (map (\<lambda>a. a\<lparr>filename := ''x''\<rparr>) twice_graph) = map code twice_graph \<and>
   map mapping (map (\<lambda>a. a\<lparr>filename := ''x''\<rparr>) twice_graph) = map mapping twice_graph \<and>
   bundle_js (map (\<lambda>a. a\<lparr>filename := ''x''\<rparr>) twice_graph) = bundle_js twice_graph \<and>
   bundle_js twice_graph = bundle_js twice_graph"
proof -
  let ?g' = "map (\<lambda>a. a\<lparr>filename := ''x''\<rparr>) twice_graph"
  have p: "map asset_id ?g' = map asset_id twice_graph" "map code ?g' = map code twice_graph"
    "map mapping ?g' = map mapping twice_graph"
    by (simp_all add: twice_graph_def)
  with bundle_js_deterministic [of twice_graph] have "bundle_js ?g' = bundle_js twice_graph"
    by blast
  with p show ?thesis by (intro conjI) simp_all
qed

subsection \<open>The runtime\<close>


















subsection \<open>A specifier absent from the mapping\<close>

lemma forEach_dependency_Inl:
  "forEach_dependency E dir ds m q ID = (Inl e, ID') \<Longrightarrow>
     \<exists>f ID1. createAsset E f ID1 = (Inl e, ID')"
proof (induction ds arbitrary: m q ID)
  case Nil
  then show ?case by simp
next
  case (Cons d ds)
  obtain r ID1 where c: "createAsset E (path_join E dir d) ID = (r, ID1)"
    by (cases "createAsset E (path_join E dir d) ID")
  show ?case
  proof (cases r)
    case (Inl e')
    with Cons.prems c have "e' = e" "ID1 = ID'" by (simp_all add: Let_def)
    with c Inl show ?thesis by blast
  next
    case (Inr child)
    with Cons.prems c have
      "forEach_dependency E dir ds (obj_set m d (asset_id child)) (q @ [child]) ID1 = (Inl e, ID')"
      by (simp add: Let_def)
    then show ?thesis by (rule Cons.IH)
  qed
qed

lemma visit_Inl:
  "visit E i q ID = (Inl e, ID') \<Longrightarrow> \<exists>f ID1. createAsset E f ID1 = (Inl e, ID')"
  by (auto simp: visit_def Let_def split: prod.splits sum.splits dest: forEach_dependency_Inl)

lemma for_of_queue_Inl:
  assumes "for_of_queue E i q ID = Some r"
  shows "\<forall>e ID'. r = (Inl e, ID') \<longrightarrow> (\<exists>f ID1. createAsset E f ID1 = (Inl e, ID'))"
proof (rule for_of_queue.raw_induct
    [OF _ assms, where P = "\<lambda>E i q ID r.
       \<forall>e ID'. r = (Inl e, ID') \<longrightarrow> (\<exists>f ID1. createAsset E f ID1 = (Inl e, ID'))"])
  fix loop :: "'a env \<Rightarrow> nat \<Rightarrow> asset list \<Rightarrow> nat \<Rightarrow> ((error + asset list) \<times> nat) option"
  fix E i q ID r
  assume IH: "\<And>E i q ID y. loop E i q ID = Some y \<Longrightarrow>
      \<forall>e ID'. y = (Inl e, ID') \<longrightarrow> (\<exists>f ID1. createAsset E f ID1 = (Inl e, ID'))"
  assume body: "(if i < length q
      then case visit E i q ID of (Inl e, ID') \<Rightarrow> Some (Inl e, ID')
           | (Inr queue', ID') \<Rightarrow> loop E (i + 1) queue' ID'
      else Some (Inr q, ID)) = Some r"
  show "\<forall>e ID'. r = (Inl e, ID') \<longrightarrow> (\<exists>f ID1. createAsset E f ID1 = (Inl e, ID'))"
  proof (intro allI impI)
    fix e ID'
    assume r: "r = (Inl e, ID')"
    with body have lt: "i < length q" by (auto split: if_splits)
    obtain v ID1 where v: "visit E i q ID = (v, ID1)" by (cases "visit E i q ID")
    show "\<exists>f ID1. createAsset E f ID1 = (Inl e, ID')"
    proof (cases v)
      case (Inl e')
      with body lt v r have "visit E i q ID = (Inl e, ID')" by simp
      then show ?thesis by (rule visit_Inl)
    next
      case (Inr q1)
      with body lt v r have "loop E (i + 1) q1 ID1 = Some (Inl e, ID')" by simp
      from IH [OF this] show ?thesis by simp
    qed
  qed
qed

lemma createGraph_Inl:
  assumes "createGraph E entry ID0 = Some (Inl e, ID')"
  shows "\<exists>f ID1. createAsset E f ID1 = (Inl e, ID')"
proof -
  obtain r ID1 where c: "createAsset E entry ID0 = (r, ID1)" by (cases "createAsset E entry ID0")
  show ?thesis
  proof (cases r)
    case (Inl e')
    with assms c have "createAsset E entry ID0 = (Inl e, ID')" by (simp add: createGraph_def)
    then show ?thesis by blast
  next
    case (Inr a)
    with assms c have "for_of_queue E 0 [a] ID1 = Some (Inl e, ID')" by (simp add: createGraph_def)
    from for_of_queue_Inl [OF this] show ?thesis by simp
  qed
qed

lemma find_last_by_id:
  "distinct (map asset_id g) \<Longrightarrow> a \<in> set g \<Longrightarrow>
     find (\<lambda>b. asset_id b = asset_id a) (rev g) = Some a"
proof (induction g rule: rev_induct)
  case Nil
  then show ?case by simp
next
  case (snoc x xs)
  show ?case
  proof (cases "asset_id x = asset_id a")
    case True
    with snoc.prems have "x = a" by (auto simp: image_iff)
    then show ?thesis by simp
  next
    case False
    with snoc.prems have "a \<in> set xs" "distinct (map asset_id xs)" by auto
    with snoc.IH False show ?thesis by simp
  qed
qed

lemma modules_of_member:
  assumes "createGraph E entry ID0 = Some (Inr g, ID')" and "a \<in> set g"
  shows "modules_of sem g (asset_id a) = Some (sem (code a), mapping a)"
proof -
  have "distinct (map asset_id g)"
    by (simp only: createGraph_complete(1) [OF assms(1)] distinct_upt)
  from find_last_by_id [OF this assms(2)] show ?thesis by (simp add: modules_of_def)
qed

lemma localRequire_absent:
  "obj_get m relativePath = None \<Longrightarrow>
     exec (require (Suc depth) modules) (Some m) module exports (Require relativePath k) s
       = (Inl TypeError, s)"
  by simp

text \<open>
  C8. An error of \<open>createGraph\<close> is always the error of a call of \<open>createAsset\<close> (loading,
  parsing or transforming a file), and \<open>bundle_js\<close> has none: the build does not look at
  what a body requires. In a graph that was built, an asset has a mapping, a specifier
  that is none of its dependencies is absent from it, and for an absent specifier the
  call \<^verbatim>\<open>require(relativePath)\<close> in the body fails when the bundle runs: \<^verbatim>\<open>localRequire\<close>
  hands \<^verbatim>\<open>undefined\<close> to \<^verbatim>\<open>require\<close>, whose lookup in the registry throws.
\<close>

theorem undeclared_require:
  "(createGraph E entry ID0 = Some (Inl e, ID1) \<longrightarrow>
      (\<exists>f ID. createAsset E f ID = (Inl e, ID1))) \<and>
   (createGraph E entry ID0 = Some (Inr g, ID1) \<and> a \<in> set g \<longrightarrow>
      build E entry ID0 = Some (Inr (bundle_js g), ID1) \<and>
      (\<exists>m. mapping a = Some m \<and>
           modules_of sem g (asset_id a) = Some (sem (code a), Some m) \<and>
           (relativePath \<notin> set (dependencies a) \<longrightarrow> obj_get m relativePath = None) \<and>
           (obj_get m relativePath = None \<longrightarrow>
              (\<forall>depth module exports k s.
                 exec (require (Suc depth) (modules_of sem g)) (Some m) module exports
                   (Require relativePath k) s = (Inl TypeError, s)) \<and>
              (\<forall>depth k s. sem (code a) = Require relativePath k \<longrightarrow>
                 require (Suc (Suc depth)) (modules_of sem g) (Some (asset_id a)) s
                   = (Inl TypeError, fresh_module (asset_id a) s)))))"
proof (intro conjI impI)
  assume "createGraph E entry ID0 = Some (Inl e, ID1)"
  then show "\<exists>f ID. createAsset E f ID = (Inl e, ID1)" by (rule createGraph_Inl)
next
  assume h: "createGraph E entry ID0 = Some (Inr g, ID1) \<and> a \<in> set g"
  then show "build E entry ID0 = Some (Inr (bundle_js g), ID1)" by (simp add: build_def)
  from h mapping_keys [of E entry ID0 g ID1 a] obtain m where
    m: "mapping a = Some m" "fst ` set m = set (dependencies a) - {''__proto__''}" by auto
  from h have reg: "modules_of sem g (asset_id a) = Some (sem (code a), Some m)"
    using modules_of_member [of E entry ID0 g ID1 a sem] m(1) by simp
  have undecl: "obj_get m relativePath = None" if "relativePath \<notin> set (dependencies a)"
  proof -
    from that m(2) have "relativePath \<notin> fst ` set m" by simp
    then show ?thesis by (simp add: obj_get_def map_of_eq_None_iff)
  qed
  have run: "require (Suc (Suc depth)) (modules_of sem g) (Some (asset_id a)) s
                   = (Inl TypeError, fresh_module (asset_id a) s)"
    if "obj_get m relativePath = None" "sem (code a) = Require relativePath k" for depth k s
    using that reg by (simp add: Let_def)
  show "\<exists>m. mapping a = Some m \<and>
           modules_of sem g (asset_id a) = Some (sem (code a), Some m) \<and>
           (relativePath \<notin> set (dependencies a) \<longrightarrow> obj_get m relativePath = None) \<and>
           (obj_get m relativePath = None \<longrightarrow>
              (\<forall>depth module exports k s.
                 exec (require (Suc depth) (modules_of sem g)) (Some m) module exports
                   (Require relativePath k) s = (Inl TypeError, s)) \<and>
              (\<forall>depth k s. sem (code a) = Require relativePath k \<longrightarrow>
                 require (Suc (Suc depth)) (modules_of sem g) (Some (asset_id a)) s
                   = (Inl TypeError, fresh_module (asset_id a) s)))"
    using m(1) reg undecl run localRequire_absent by (intro exI [of _ m]) simp
qed

theorem undeclared_require_witness:
  "createGraph ghost_env ''./entry.js'' 0 =
     Some (Inr [\<lparr>asset_id = 0, filename = ''./entry.js'', dependencies = [],
                 code = ''require(\"./ghost\");'', mapping = Some []\<rparr>], 1)
   \<and> script ghost_env =
     Some (Inr (bundle_js [\<lparr>asset_id = 0, filename = ''./entry.js'', dependencies = [],
                 code = ''require(\"./ghost\");'', mapping = Some []\<rparr>]), 1)
   \<and> run_bundle 2 ghost_sem [\<lparr>asset_id = 0, filename = ''./entry.js'', dependencies = [],
                 code = ''require(\"./ghost\");'', mapping = Some []\<rparr>] =
     (Inl TypeError, \<lparr>heap = [[], [(''exports'', Ref 0)]], console = [], started = [0]\<rparr>)
   \<and> createGraph missing_env ''./entry.js'' 0 = Some (Inl LoadError, 1)
   \<and> createAsset missing_env ''missing'' 1 = (Inl LoadError, 1)"
proof -
  let ?a = "\<lparr>asset_id = 0, filename = ''./entry.js'', dependencies = [],
                 code = ''require(\"./ghost\");'', mapping = Some []\<rparr>"
  let ?s0 = "\<lparr>heap = [], console = [], started = []\<rparr>"
  have g: "createGraph ghost_env ''./entry.js'' 0 = Some (Inr [?a], 1)"
    by code_simp
  note T = undeclared_require [of ghost_env "''./entry.js''" 0 _ 1 "[?a]" ?a ghost_sem "''./ghost''"]
  from T g have b: "build ghost_env ''./entry.js'' 0 = Some (Inr (bundle_js [?a]), 1)" by simp
  from T g obtain m where m: "mapping ?a = Some m"
    "''./ghost'' \<notin> set (dependencies ?a) \<longrightarrow> obj_get m ''./ghost'' = None"
    "obj_get m ''./ghost'' = None \<longrightarrow>
       (\<forall>depth k s. ghost_sem (code ?a) = Require ''./ghost'' k \<longrightarrow>
          require (Suc (Suc depth)) (modules_of ghost_sem [?a]) (Some (asset_id ?a)) s
            = (Inl TypeError, fresh_module (asset_id ?a) s))"
    by auto
  from m(2) have "obj_get m ''./ghost'' = None" by simp
  with m(3) have "require (Suc (Suc 0)) (modules_of ghost_sem [?a]) (Some 0) ?s0
            = (Inl TypeError, fresh_module 0 ?s0)"
    by (simp add: ghost_sem_def)
  then have r: "run_bundle 2 ghost_sem [?a] =
     (Inl TypeError, \<lparr>heap = [[], [(''exports'', Ref 0)]], console = [], started = [0]\<rparr>)"
    by (simp add: run_bundle_def fresh_module_def numeral_2_eq_2)
  have e: "createGraph missing_env ''./entry.js'' 0 = Some (Inl LoadError, 1)"
    by code_simp
  have c: "createAsset missing_env ''missing'' 1 = (Inl LoadError, 1)"
    by (simp add: missing_env_def project_simps)
  from g b r e c show ?thesis unfolding script_def by (intro conjI)
qed


end
